theory Spec2Isabelle
  imports Main "HOL-Library.Multiset" "HOL-Library.Word"
begin

section \<open>JavaScript values, objects and maps\<close>

text \<open>
  A JavaScript string is a sequence of 16-bit code units. The string literals of the two
  files and of the examples are ASCII; \<open>js\<close> gives the string of such a literal and
  \<open>cu\<close> the code unit of one of its characters.
\<close>

type_synonym codeunit = "16 word"

type_synonym jsstring = "codeunit list"

definition cu :: "char \<Rightarrow> codeunit" where
  "cu c = word_of_int (of_char c)"

definition js :: "string \<Rightarrow> jsstring" where
  "js s = map cu s"

text \<open>
  The cell values that occur in fetched records and in rows of a flat file: text,
  \<^verbatim>\<open>null\<close> and \<^verbatim>\<open>undefined\<close> (what reading an absent property gives).
\<close>

datatype jsval = Undefined | Null | Str jsstring

text \<open>The test \<^verbatim>\<open>if (v)\<close>: only non-empty text is truthy.\<close>

fun truthy :: "jsval \<Rightarrow> bool" where
  "truthy (Str s) = (s \<noteq> [])"
| "truthy Undefined = False"
| "truthy Null = False"

text \<open>\<^verbatim>\<open>String(v)\<close>\<close>

fun String_of :: "jsval \<Rightarrow> jsstring" where
  "String_of (Str s) = s"
| "String_of Undefined = js ''undefined''"
| "String_of Null = js ''null''"

text \<open>
  A \<^verbatim>\<open>Map\<close> and a plain object both keep their keys in insertion order: writing an
  existing key keeps its position, writing a new key appends it. Both are association
  lists; only the first entry of a key is ever read or written, and every list built by
  the operations below from the empty list has one entry per key. (An object enumerates
  keys that are array indices before all others; field and column names are none.)
\<close>

type_synonym ('k, 'v) jsmap = "('k \<times> 'v) list"

definition Map_has :: "('k, 'v) jsmap \<Rightarrow> 'k \<Rightarrow> bool" where
  "Map_has m k = (map_of m k \<noteq> None)"

definition Map_get :: "('k, 'v) jsmap \<Rightarrow> 'k \<Rightarrow> 'v option" where
  "Map_get m k = map_of m k"

fun Map_set :: "'k \<Rightarrow> 'v \<Rightarrow> ('k, 'v) jsmap \<Rightarrow> ('k, 'v) jsmap" where
  "Map_set k v [] = [(k, v)]"
| "Map_set k v (p # ps) = (if fst p = k then (k, v) # ps else p # Map_set k v ps)"

text \<open>A record or a row: property name to value.\<close>

type_synonym row = "(jsstring, jsval) jsmap"

definition getProp :: "row \<Rightarrow> jsstring \<Rightarrow> jsval" where
  "getProp r k = (case map_of r k of None \<Rightarrow> Undefined | Some v \<Rightarrow> v)"

definition hasOwnProperty :: "row \<Rightarrow> jsstring \<Rightarrow> bool" where
  "hasOwnProperty r k = Map_has r k"

definition setProp :: "jsstring \<Rightarrow> jsval \<Rightarrow> row \<Rightarrow> row" where
  "setProp k v r = Map_set k v r"

definition deleteProp :: "jsstring \<Rightarrow> row \<Rightarrow> row" where
  "deleteProp k r = filter (\<lambda>p. fst p \<noteq> k) r"

definition Object_keys :: "row \<Rightarrow> jsstring list" where
  "Object_keys r = map fst r"

text \<open>
  \<^verbatim>\<open>String.prototype.trim\<close> removes, at both ends, the code units of the
  productions WhiteSpace and LineTerminator of ECMAScript: tab, line feed, vertical tab,
  form feed, carriage return, space, no-break space (U+00A0), the space separators
  U+1680, U+2000 to U+200A, U+202F, U+205F and U+3000, the line and paragraph separators
  U+2028 and U+2029, and the byte order mark U+FEFF. All of them are single code units.
\<close>

definition isWhiteSpace :: "codeunit \<Rightarrow> bool" where
  "isWhiteSpace c =
     (c \<in> set [0x0009, 0x000A, 0x000B, 0x000C, 0x000D, 0x0020, 0x00A0, 0x1680,
                0x2000, 0x2001, 0x2002, 0x2003, 0x2004, 0x2005, 0x2006, 0x2007, 0x2008,
                0x2009, 0x200A, 0x2028, 0x2029, 0x202F, 0x205F, 0x3000, 0xFEFF])"

definition trim :: "jsstring \<Rightarrow> jsstring" where
  "trim s = rev (dropWhile isWhiteSpace (rev (dropWhile isWhiteSpace s)))"

text \<open>\<^verbatim>\<open>s.split(c)\<close> for a one-character separator.\<close>

fun split :: "codeunit \<Rightarrow> jsstring \<Rightarrow> jsstring list" where
  "split c [] = [] # []"
| "split c (x # xs) =
     (if x = c then [] # split c xs
      else (case split c xs of [] \<Rightarrow> [x] # [] | w # ws \<Rightarrow> (x # w) # ws))"

section \<open>Data model\<close>

text \<open>
  The migration job of \<^verbatim>\<open>migrationJob.ts\<close> and its tasks of
  \<^verbatim>\<open>migrationJobTask.ts\<close>. Script, script objects (entity descriptors), field
  descriptors and the constants are declared elsewhere in the repository; the records
  below hold the members the two files read or write. A descriptor that is referenced
  from another one is kept by the members read through that reference.
\<close>

datatype OPERATION = Insert | Update | Upsert | Readonly | Delete

datatype DATA_MEDIA_TYPE = Org | File

record CONSTANTS =
  RECORD_TYPE_SOBJECT_NAME :: jsstring
  USER_AND_GROUP_FILENAME :: jsstring
  CSV_SOURCE_SUB_DIRECTORY :: jsstring
  CSV_SOURCE_FILE_SUFFIX :: jsstring
  CSV_TARGET_SUB_DIRECTORY :: jsstring
  CSV_TARGET_FILE_SUFFIX :: jsstring
  QUERY_BULK_API_THRESHOLD :: int
  NOT_TO_USE_IN_FILTERED_QUERYIN_CLAUSE :: "jsstring list"

text \<open>\<^verbatim>\<open>sField.parentLookupObject\<close>: the referenced descriptor.\<close>

record ParentLookupObject =
  parentName :: jsstring
  parentExternalId :: jsstring
  parentIsLimitedQuery :: bool

text \<open>\<^verbatim>\<open>child__rSFields[i].idSField\<close>: the lookup-id field of a child descriptor.\<close>

record ChildIdSField =
  childNameId :: jsstring
  childFullOriginalName__r :: jsstring
  childFullIdName__r :: jsstring
  childScriptObjectName :: jsstring

record SFieldDescribe =
  fieldName :: jsstring
  nameId :: jsstring
  fullName__r :: jsstring
  isReference :: bool
  isSimple :: bool
  isSimpleReference :: bool
  isSimpleSelfReference :: bool
  isExternalIdField :: bool
  referencedObjectType :: jsstring
  parentLookupObject :: ParentLookupObject
  child__rSFields :: "ChildIdSField list"

text \<open>The parsed query of a descriptor, as far as \<^verbatim>\<open>createQuery\<close> touches it.\<close>

record Query =
  queryFields :: "jsstring list"
  queryLimit :: "int option"
  queryOffset :: "int option"
  queryOrderBy :: "jsstring option"
  queryRest :: jsstring

record ScriptObject =
  name :: jsstring
  operation :: OPERATION
  externalId :: jsstring
  originalExternalId :: jsstring
  allRecords :: bool
  isSpecialObject :: bool
  isObjectWithoutRelationships :: bool
  hasComplexExternalId :: bool
  hasAutonumberExternalId :: bool
  isReadonlyObject :: bool
  isLimitedQuery :: bool
  useCSVValuesMapping :: bool
  processAllSource :: bool
  processAllTarget :: bool
  parentLookupObjects :: "jsstring list"
  parentMasterDetailObjects :: "jsstring list"
  fieldsToUpdateMap :: "(jsstring, SFieldDescribe) jsmap"
  fieldsInQueryMap :: "(jsstring, SFieldDescribe) jsmap"
  externalIdSFieldDescribe :: SFieldDescribe
  parsedQuery :: Query

record ScriptOrg =
  media :: DATA_MEDIA_TYPE
  connectionData :: jsstring

record Script =
  basePath :: jsstring
  objects :: "ScriptObject list"
  sourceOrg :: ScriptOrg
  targetOrg :: ScriptOrg
  bulkThreshold :: int
  bulkApiVersionNumber :: int
  bulkApiV1BatchSize :: int
  pollingIntervalMs :: int
  allOrNone :: bool
  alwaysUseRestApiToUpdateRecords :: bool
  createTargetCSVFiles :: bool

text \<open>
  A task is a JavaScript object: \<^verbatim>\<open>Array.indexOf\<close> compares tasks by reference.
  The field \<open>taskId\<close> is that reference; \<open>setupJob\<close> allocates one per created task.
\<close>

record Task =
  taskId :: nat
  scriptObject :: ScriptObject

definition sObjectName :: "Task \<Rightarrow> jsstring" where
  "sObjectName t = name (scriptObject t)"

record MigrationJob =
  script :: Script
  tasks :: "Task list"
  queryTasks :: "Task list"
  csvValuesMapping :: "(jsstring, (jsstring, jsstring) jsmap) jsmap"

text \<open>Modelled from the spec: the members \<^verbatim>\<open>fieldsInQuery\<close> and
  \<^verbatim>\<open>fieldsInQueryMap\<close> of a script object are declared outside the two files. The
  query field list of a task lists the keys of the map, so looking each of them up in the
  map (lines 198 and 672) gives the descriptors in the map's order.\<close>

definition fieldsInQuery :: "Task \<Rightarrow> jsstring list" where
  "fieldsInQuery t = map fst (fieldsInQueryMap (scriptObject t))"

definition fieldsInQuerySFields :: "Task \<Rightarrow> SFieldDescribe list" where
  "fieldsInQuerySFields t =
     concat (map (\<lambda>n. case Map_get (fieldsInQueryMap (scriptObject t)) n of
                         None \<Rightarrow> [] | Some f \<Rightarrow> [f])
                 (fieldsInQuery t))"

text \<open>Lines 489--491 of \<^verbatim>\<open>migrationJob.ts\<close>.\<close>

definition getTaskBySObjectName :: "MigrationJob \<Rightarrow> jsstring \<Rightarrow> Task option" where
  "getTaskBySObjectName job n =
     (case filter (\<lambda>x. sObjectName x = n) (tasks job) of [] \<Rightarrow> None | t # _ \<Rightarrow> Some t)"

text \<open>Lines 450--457 and 1033--1046: the file names of a task. \<^verbatim>\<open>path.join\<close> is a
  function of the platform: it puts one separator between its arguments and normalises
  the result (no empty segment, no \<^verbatim>\<open>.\<close> or \<^verbatim>\<open>..\<close> segment). The
  model joins with one separator and does not normalise; the two agree where the arguments
  are non-empty and hold neither separators nor dot segments, as they do in every example
  below. The file name is used as the key of the file cache only.\<close>

definition path_join :: "jsstring \<Rightarrow> jsstring \<Rightarrow> jsstring" where
  "path_join a b = a @ js ''/'' @ b"

definition getCSVFilename :: "CONSTANTS \<Rightarrow> Task \<Rightarrow> jsstring \<Rightarrow> jsstring \<Rightarrow> jsstring" where
  "getCSVFilename C t rootPath pattern =
     (let suffix = pattern @ js ''.csv''
      in if sObjectName t = js ''User'' \<or> sObjectName t = js ''Group''
         then path_join rootPath (USER_AND_GROUP_FILENAME C) @ suffix
         else path_join rootPath (sObjectName t) @ suffix)"

definition sourceCsvFilename :: "CONSTANTS \<Rightarrow> Script \<Rightarrow> Task \<Rightarrow> jsstring" where
  "sourceCsvFilename C s t =
     getCSVFilename C t (path_join (basePath s) (CSV_SOURCE_SUB_DIRECTORY C))
       (CSV_SOURCE_FILE_SUFFIX C)"

section \<open>JavaScript array primitives\<close>

text \<open>\<^verbatim>\<open>Array.prototype.indexOf\<close> on tasks: the first position holding the same
  object, or \<open>-1\<close>.\<close>

fun indexOf :: "Task list \<Rightarrow> Task \<Rightarrow> int" where
  "indexOf [] t = -1"
| "indexOf (x # xs) t =
     (if taskId x = taskId t then 0
      else (let r = indexOf xs t in if r < 0 then -1 else r + 1))"

text \<open>The start position \<^verbatim>\<open>splice\<close> works with: a negative start counts from
  the end, and every start is clamped to the array.\<close>

definition spliceStart :: "int \<Rightarrow> nat \<Rightarrow> nat" where
  "spliceStart s len = (if s < 0 then nat (max (int len + s) 0) else min (nat s) len)"

text \<open>\<^verbatim>\<open>xs.splice(s, 1)\<close>\<close>

definition spliceRemove :: "int \<Rightarrow> 'a list \<Rightarrow> 'a list" where
  "spliceRemove s xs = (let i = spliceStart s (length xs) in take i xs @ drop (Suc i) xs)"

text \<open>\<^verbatim>\<open>xs.splice(s, 0, x)\<close>\<close>

definition spliceInsert :: "int \<Rightarrow> 'a \<Rightarrow> 'a list \<Rightarrow> 'a list" where
  "spliceInsert s x xs = (let i = spliceStart s (length xs) in take i xs @ x # drop i xs)"

section \<open>Task graph builder: the job's \<^verbatim>\<open>setup()\<close>\<close>

text \<open>Lines 69--82: the process-all flags written onto the descriptor.\<close>

definition setProcessAll :: "ScriptObject \<Rightarrow> ScriptObject" where
  "setProcessAll objectToAdd =
     (if allRecords objectToAdd \<or> isSpecialObject objectToAdd
         \<or> isObjectWithoutRelationships objectToAdd
      then objectToAdd\<lparr>processAllSource := True, processAllTarget := True\<rparr>
      else objectToAdd\<lparr>processAllSource := False,
             processAllTarget :=
               (hasComplexExternalId objectToAdd \<or> hasAutonumberExternalId objectToAdd)\<rparr>)"

text \<open>Lines 100--112: the backward scan for the insertion index of a new object.\<close>

definition scanIndexToInsert :: "Task list \<Rightarrow> nat \<Rightarrow> jsstring \<Rightarrow> nat" where
  "scanIndexToInsert ts lowerIndex objName =
     fold (\<lambda>existedTaskIndex indexToInsert.
             if objName \<in> set (parentLookupObjects (scriptObject (ts ! existedTaskIndex)))
             then existedTaskIndex else indexToInsert)
          (rev [lowerIndex ..< length ts])
          (length ts)"

record PlaceState =
  placedTasks :: "Task list"
  lowerIndexForAnyObjects :: nat
  lowerIndexForReadonlyObjects :: nat

text \<open>Lines 62--118: the body of the \<^verbatim>\<open>forEach\<close> over the script objects. The
  first component of the argument is the reference given to the new task.\<close>

definition placeObject :: "CONSTANTS \<Rightarrow> PlaceState \<Rightarrow> nat \<times> ScriptObject \<Rightarrow> PlaceState" where
  "placeObject C st p =
     (let objectToAdd = setProcessAll (snd p);
          newTask = \<lparr>taskId = fst p, scriptObject = objectToAdd\<rparr>
      in if name objectToAdd = RECORD_TYPE_SOBJECT_NAME C then
           st\<lparr>placedTasks := newTask # placedTasks st,
              lowerIndexForAnyObjects := lowerIndexForAnyObjects st + 1,
              lowerIndexForReadonlyObjects := lowerIndexForReadonlyObjects st + 1\<rparr>
         else if isReadonlyObject objectToAdd then
           st\<lparr>placedTasks :=
                spliceInsert (int (lowerIndexForReadonlyObjects st)) newTask (placedTasks st),
              lowerIndexForAnyObjects := lowerIndexForAnyObjects st + 1\<rparr>
         else if length (placedTasks st) = 0 then
           st\<lparr>placedTasks := placedTasks st @ [newTask]\<rparr>
         else
           st\<lparr>placedTasks :=
                spliceInsert
                  (int (scanIndexToInsert (placedTasks st) (lowerIndexForAnyObjects st)
                          (name objectToAdd)))
                  newTask (placedTasks st)\<rparr>)"

definition placeTasks :: "CONSTANTS \<Rightarrow> ScriptObject list \<Rightarrow> PlaceState" where
  "placeTasks C obs =
     foldl (placeObject C)
       \<lparr>placedTasks = [], lowerIndexForAnyObjects = 0, lowerIndexForReadonlyObjects = 0\<rparr>
       (zip [0 ..< length obs] obs)"

text \<open>Lines 150--169: one relaxation pass. \<open>tempTasks\<close> is the snapshot the two loops
  index; the pair carries \<^verbatim>\<open>swapped\<close> and \<^verbatim>\<open>self.tasks\<close>.\<close>

definition mdStep :: "Task list \<Rightarrow> nat \<Rightarrow> nat \<Rightarrow> bool \<times> Task list \<Rightarrow> bool \<times> Task list" where
  "mdStep tempTasks leftIndex rightIndex st =
     (let leftTask = tempTasks ! leftIndex;
          rightTask = tempTasks ! rightIndex;
          rightIsParentMasterDetailOfLeft =
            (sObjectName rightTask \<in> set (parentMasterDetailObjects (scriptObject leftTask)));
          leftTaskIndex = indexOf (snd st) leftTask;
          rightTaskIndex = indexOf (snd st) rightTask
      in if rightIsParentMasterDetailOfLeft
         then (True, spliceInsert leftTaskIndex rightTask (spliceRemove rightTaskIndex (snd st)))
         else st)"

definition mdInnerLoop :: "Task list \<Rightarrow> nat \<Rightarrow> bool \<times> Task list \<Rightarrow> bool \<times> Task list" where
  "mdInnerLoop tempTasks leftIndex st =
     fold (mdStep tempTasks leftIndex) [Suc leftIndex ..< length tempTasks] st"

definition putMasterDetailsBefore :: "Task list \<Rightarrow> bool \<times> Task list" where
  "putMasterDetailsBefore ts =
     (let tempTasks = ts
      in fold (mdInnerLoop tempTasks) [0 ..< length tempTasks - 1] (False, ts))"

text \<open>Lines 121--124: at most \<open>n\<close> further passes, as long as the last one moved a task.\<close>

fun relaxLoop :: "nat \<Rightarrow> bool \<times> Task list \<Rightarrow> bool \<times> Task list" where
  "relaxLoop 0 st = st"
| "relaxLoop (Suc n) st =
     (if fst st then relaxLoop n (putMasterDetailsBefore (snd st)) else st)"

definition relaxMasterDetails :: "Task list \<Rightarrow> bool \<times> Task list" where
  "relaxMasterDetails ts = relaxLoop 10 (True, ts)"

text \<open>Lines 126--137: the query order. \<^verbatim>\<open>task.sourceData.allRecords\<close> reads the
  descriptor's \<^verbatim>\<open>processAllSource\<close> (lines 1087--1089 of the task file).\<close>

definition sourceAllRecords :: "Task \<Rightarrow> bool" where
  "sourceAllRecords t = processAllSource (scriptObject t)"

definition buildQueryTasks :: "Task list \<Rightarrow> Task list" where
  "buildQueryTasks ts =
     (let q1 = fold (\<lambda>task qs.
                       if sourceAllRecords task \<or> isLimitedQuery (scriptObject task)
                       then qs @ [task] else qs) ts []
      in fold (\<lambda>task qs. if indexOf qs task < 0 then qs @ [task] else qs) ts q1)"

definition setupJob :: "CONSTANTS \<Rightarrow> Script \<Rightarrow> MigrationJob" where
  "setupJob C s =
     (let ordered = snd (relaxMasterDetails (placedTasks (placeTasks C (objects s))))
      in \<lparr>script = s, tasks = ordered, queryTasks = buildQueryTasks ordered,
          csvValuesMapping = []\<rparr>)"

text \<open>The properties of an execution order that the claims speak about.\<close>

definition isParentMD :: "Task list \<Rightarrow> nat \<Rightarrow> nat \<Rightarrow> bool" where
  "isParentMD ts child parent =
     (sObjectName (ts ! parent) \<in> set (parentMasterDetailObjects (scriptObject (ts ! child))))"

text \<open>No task stands before one of its master-detail parents.\<close>

definition stableOrder :: "Task list \<Rightarrow> bool" where
  "stableOrder ts \<longleftrightarrow> (\<forall>l r. l < r \<and> r < length ts \<longrightarrow> \<not> isParentMD ts l r)"

definition queriedFirst :: "Task \<Rightarrow> bool" where
  "queriedFirst task = (sourceAllRecords task \<or> isLimitedQuery (scriptObject task))"

text \<open>The three kinds of task the placement distinguishes.\<close>

definition isClassification :: "CONSTANTS \<Rightarrow> Task \<Rightarrow> bool" where
  "isClassification C t = (name (scriptObject t) = RECORD_TYPE_SOBJECT_NAME C)"

definition isReadonlyTask :: "CONSTANTS \<Rightarrow> Task \<Rightarrow> bool" where
  "isReadonlyTask C t = (\<not> isClassification C t \<and> isReadonlyObject (scriptObject t))"

definition isOrdinaryTask :: "CONSTANTS \<Rightarrow> Task \<Rightarrow> bool" where
  "isOrdinaryTask C t = (\<not> isClassification C t \<and> \<not> isReadonlyObject (scriptObject t))"

text \<open>The classification tasks come first, the read-only tasks follow them, and every
  task after these is of neither kind.\<close>

definition specialPrefix :: "CONSTANTS \<Rightarrow> Task list \<Rightarrow> bool" where
  "specialPrefix C ts =
     list_all (isOrdinaryTask C)
       (dropWhile (isReadonlyTask C) (dropWhile (isClassification C) ts))"

text \<open>The two cursors of the placement delimit the three zones.\<close>

definition placedInZones :: "CONSTANTS \<Rightarrow> PlaceState \<Rightarrow> bool" where
  "placedInZones C st =
     (lowerIndexForReadonlyObjects st \<le> lowerIndexForAnyObjects st
      \<and> lowerIndexForAnyObjects st \<le> length (placedTasks st)
      \<and> list_all (isClassification C) (take (lowerIndexForReadonlyObjects st) (placedTasks st))
      \<and> list_all (isReadonlyTask C)
           (drop (lowerIndexForReadonlyObjects st)
              (take (lowerIndexForAnyObjects st) (placedTasks st)))
      \<and> list_all (isOrdinaryTask C) (drop (lowerIndexForAnyObjects st) (placedTasks st)))"

section \<open>Collaborators outside the two files\<close>

datatype RESOURCES =
    csvFileIsEmpty
  | columnsMissingInCSV
  | missingParentRecordForGivenLookupValue
  | cantUpdateChildLookupCSVColumn

text \<open>
  What the two files call and do not define: the helpers of \<^verbatim>\<open>Common\<close>, the
  query composer, the logger's resource texts, the clock, the remote service and the
  file system. They are parameters of the model.
\<close>

record Collaborators =
  getRecordValue :: "jsstring \<Rightarrow> row \<Rightarrow> jsstring \<Rightarrow> jsstring option \<Rightarrow> jsstring option \<Rightarrow> jsval"
  getComplexField :: "jsstring \<Rightarrow> jsstring"
  getFieldValue :: "jsstring \<Rightarrow> jsval \<Rightarrow> jsstring \<Rightarrow> jsval"
  distinctStringArray :: "jsval list \<Rightarrow> jsval list"
  createFieldInQueries :: "jsstring list \<Rightarrow> jsstring \<Rightarrow> jsstring \<Rightarrow> jsval list \<Rightarrow> jsstring list"
  composeQuery :: "Query \<Rightarrow> jsstring"
  retrieveRecordsAsync :: "ScriptOrg \<Rightarrow> jsstring \<Rightarrow> bool \<Rightarrow> jsstring option \<Rightarrow> row list"
  readCsvFileAsync :: "jsstring \<Rightarrow> nat \<Rightarrow> row list"
  readCsvFile :: "jsstring \<Rightarrow> (jsval, row) jsmap"
  formatDateTimeNow :: jsstring
  getResourceString :: "RESOURCES \<Rightarrow> jsstring"
  formatNextId :: "nat \<Rightarrow> jsstring"

section \<open>Identifier index: \<^verbatim>\<open>___setExternalIdMap\<close>\<close>

record TaskOrgData =
  extIdRecordsMap :: "(jsval, jsval) jsmap"
  idRecordsMap :: "(jsval, row) jsmap"

text \<open>Lines 70--72: \<^verbatim>\<open>complexExternalId\<close>.\<close>

definition complexExternalId :: "Collaborators \<Rightarrow> Task \<Rightarrow> jsstring" where
  "complexExternalId env t = getComplexField env (externalId (scriptObject t))"

text \<open>Lines 753--764: the body of the \<^verbatim>\<open>forEach\<close> over the fetched records. The
  state is the external-id index, the identifier index and \<^verbatim>\<open>newRecordsCount\<close>.\<close>

definition setExternalIdMapStep ::
  "Collaborators \<Rightarrow> Task \<Rightarrow> row \<Rightarrow>
   (jsval, jsval) jsmap \<times> (jsval, row) jsmap \<times> nat \<Rightarrow>
   (jsval, jsval) jsmap \<times> (jsval, row) jsmap \<times> nat" where
  "setExternalIdMapStep env self record st =
     (case st of (sourceExtIdRecordsMap, sourceIdRecordsMap, newRecordsCount) \<Rightarrow>
        let val = getRecordValue env (sObjectName self) record (complexExternalId env self)
                    None None;
            ext' = (if truthy val then Map_set val (getProp record (js ''Id'')) sourceExtIdRecordsMap
                    else sourceExtIdRecordsMap)
        in if truthy (getProp record (js ''Id'')) then
             (if \<not> Map_has sourceIdRecordsMap (getProp record (js ''Id''))
              then (ext', Map_set (getProp record (js ''Id'')) record sourceIdRecordsMap,
                    newRecordsCount + 1)
              else (ext', sourceIdRecordsMap, newRecordsCount))
           else (ext', sourceIdRecordsMap, newRecordsCount))"

text \<open>Lines 748--766. The result is the updated external-id index, the updated identifier
  index and the returned count.\<close>

definition setExternalIdMap ::
  "Collaborators \<Rightarrow> Task \<Rightarrow> row list \<Rightarrow> (jsval, jsval) jsmap \<Rightarrow> (jsval, row) jsmap \<Rightarrow>
   (jsval, jsval) jsmap \<times> (jsval, row) jsmap \<times> nat" where
  "setExternalIdMap env self records sourceExtIdRecordsMap sourceIdRecordsMap =
     fold (setExternalIdMapStep env self) records
       (sourceExtIdRecordsMap, sourceIdRecordsMap, 0)"

text \<open>The same update on one endpoint's bucket.\<close>

definition updateOrgData :: "Collaborators \<Rightarrow> Task \<Rightarrow> row list \<Rightarrow> TaskOrgData \<Rightarrow> TaskOrgData" where
  "updateOrgData env self records d =
     (case setExternalIdMap env self records (extIdRecordsMap d) (idRecordsMap d) of
        (ext', idm', n) \<Rightarrow> d\<lparr>extIdRecordsMap := ext', idRecordsMap := idm'\<rparr>)"

text \<open>A record is new when it is applied if it has an identifier and the identifier index,
  as the records before it left it, does not hold that identifier.\<close>

definition newWhenApplied ::
  "Collaborators \<Rightarrow> Task \<Rightarrow> row list \<Rightarrow> (jsval, jsval) jsmap \<Rightarrow> (jsval, row) jsmap \<Rightarrow> nat \<Rightarrow> bool" where
  "newWhenApplied env self records ext idm i =
     (truthy (getProp (records ! i) (js ''Id'')) \<and>
      \<not> Map_has (fst (snd (setExternalIdMap env self (take i records) ext idm)))
              (getProp (records ! i) (js ''Id'')))"

text \<open>The value a record yields for the external-id index, and the last record of a
  sequence that yields a given value.\<close>

definition externalIdValue :: "Collaborators \<Rightarrow> Task \<Rightarrow> row \<Rightarrow> jsval" where
  "externalIdValue env self record =
     getRecordValue env (sObjectName self) record (complexExternalId env self) None None"

definition lastYielding :: "Collaborators \<Rightarrow> Task \<Rightarrow> jsval \<Rightarrow> row list \<Rightarrow> row option" where
  "lastYielding env self v records =
     (case filter (\<lambda>r. externalIdValue env self r = v) (rev records) of
        [] \<Rightarrow> None | r # _ \<Rightarrow> Some r)"

text \<open>The first record of a sequence that carries a given identifier.\<close>

definition firstWithId :: "jsval \<Rightarrow> row list \<Rightarrow> row option" where
  "firstWithId k records = find (\<lambda>r. getProp r (js ''Id'') = k) records"

section \<open>Retrieval: \<^verbatim>\<open>retrieveRecords\<close>\<close>

datatype QueryMode = forwards | backwards | target

datatype JsError = TypeError

record TaskData =
  sourceData :: TaskOrgData
  targetData :: TaskOrgData
  sourceTotalRecorsCount :: int
  targetTotalRecorsCount :: int

text \<open>The buckets of all tasks, by task reference, and the queries sent so far with the
  endpoint they were sent to.\<close>

record RetrieveState =
  taskData :: "nat \<Rightarrow> TaskData"
  issuedQueries :: "(ScriptOrg \<times> jsstring) list"

text \<open>Lines 470--485.\<close>

definition createQuery ::
  "Collaborators \<Rightarrow> Task \<Rightarrow> jsstring list option \<Rightarrow> bool \<Rightarrow> Query option \<Rightarrow> jsstring" where
  "createQuery env t fieldNames removeLimits pq =
     (let parsed = (case pq of None \<Rightarrow> parsedQuery (scriptObject t) | Some q \<Rightarrow> q);
          tempQuery = parsed\<lparr>queryFields :=
                         (case fieldNames of None \<Rightarrow> fieldsInQuery t | Some fs \<Rightarrow> fs)\<rparr>;
          tempQuery' = (if removeLimits
                        then tempQuery\<lparr>queryLimit := None, queryOffset := None,
                                        queryOrderBy := None\<rparr>
                        else tempQuery)
      in composeQuery env tempQuery')"

text \<open>Lines 1075--1078.\<close>

definition useBulkQueryApi :: "CONSTANTS \<Rightarrow> TaskData \<Rightarrow> bool \<Rightarrow> bool" where
  "useBulkQueryApi C d isSource =
     (if isSource then sourceTotalRecorsCount d > QUERY_BULK_API_THRESHOLD C
      else targetTotalRecorsCount d > QUERY_BULK_API_THRESHOLD C)"

text \<open>One call of \<^verbatim>\<open>sfdx.retrieveRecordsAsync\<close>: the query is recorded as sent.\<close>

definition fetchRecords ::
  "Collaborators \<Rightarrow> ScriptOrg \<Rightarrow> jsstring \<Rightarrow> bool \<Rightarrow> jsstring option \<Rightarrow> RetrieveState \<Rightarrow>
   row list \<times> RetrieveState" where
  "fetchRecords env org query useBulk file st =
     (retrieveRecordsAsync env org query useBulk file,
      st\<lparr>issuedQueries := issuedQueries st @ [(org, query)]\<rparr>)"

text \<open>Lines 768--779 (and the loop of lines 687--693): the queries are sent in order and
  their records concatenated.\<close>

definition retrieveFilteredRecords ::
  "Collaborators \<Rightarrow> ScriptOrg \<Rightarrow> jsstring list \<Rightarrow> RetrieveState \<Rightarrow> row list \<times> RetrieveState" where
  "retrieveFilteredRecords env org queries st =
     fold (\<lambda>query (records, s).
             case fetchRecords env org query False None s of
               (rs, s') \<Rightarrow> (records @ rs, s'))
          queries ([], st)"

text \<open>\<^verbatim>\<open>x.task\<close> for a descriptor \<open>x\<close> known by its name; reading a member of a
  missing task is a \<^verbatim>\<open>TypeError\<close>.\<close>

definition taskOfObject :: "MigrationJob \<Rightarrow> jsstring \<Rightarrow> JsError + Task" where
  "taskOfObject job n =
     (case getTaskBySObjectName job n of None \<Rightarrow> Inl TypeError | Some t \<Rightarrow> Inr t)"

text \<open>Lines 942--955: the filter values of a reversed query.\<close>

definition reversedValues ::
  "Collaborators \<Rightarrow> MigrationJob \<Rightarrow> RetrieveState \<Rightarrow> Task \<Rightarrow> JsError + jsval list" where
  "reversedValues env job st self =
     (let fields = concat (map child__rSFields
                     (filter (\<lambda>field. length (child__rSFields field) > 0)
                        (map snd (fieldsInQueryMap (scriptObject self)))))
      in map_sum id (distinctStringArray env)
           (fold (\<lambda>field acc.
                    case acc of Inl e \<Rightarrow> Inl e
                    | Inr vals \<Rightarrow>
                        (case taskOfObject job (childScriptObjectName field) of
                           Inl e \<Rightarrow> Inl e
                         | Inr t \<Rightarrow>
                             Inr (vals @ filter truthy
                                    (map (\<lambda>rec. getProp rec (childNameId field))
                                       (map snd (idRecordsMap (sourceData (taskData st (taskId t)))))))))
                 fields (Inr [])))"

text \<open>Lines 958--990: the entry one field adds to \<^verbatim>\<open>fieldsToQueryMap\<close>.\<close>

definition fieldToQuery ::
  "CONSTANTS \<Rightarrow> Collaborators \<Rightarrow> MigrationJob \<Rightarrow> RetrieveState \<Rightarrow> Task \<Rightarrow> QueryMode \<Rightarrow>
   SFieldDescribe \<Rightarrow> JsError + (jsstring \<times> jsval list) list" where
  "fieldToQuery C env job st self queryMode field =
     (let isSource = (queryMode \<noteq> target);
          prevTasks = filter (\<lambda>task. indexOf (tasks job) task < indexOf (tasks job) self) (tasks job);
          nextTasks = filter (\<lambda>task. indexOf (tasks job) task > indexOf (tasks job) self) (tasks job)
      in if isSource then
           (if isSimpleReference field
               \<and> referencedObjectType field \<notin> set (NOT_TO_USE_IN_FILTERED_QUERYIN_CLAUSE C)
            then (case taskOfObject job (parentName (parentLookupObject field)) of
                    Inl e \<Rightarrow> Inl e
                  | Inr parentTask \<Rightarrow>
                      if \<not> sourceAllRecords parentTask
                         \<or> parentIsLimitedQuery (parentLookupObject field)
                      then (if queryMode \<noteq> forwards
                            then (if indexOf prevTasks parentTask \<ge> 0
                                  then Inr [(fieldName field,
                                             map fst (idRecordsMap (sourceData
                                               (taskData st (taskId parentTask)))))]
                                  else Inr [])
                            else (if indexOf nextTasks parentTask \<ge> 0
                                  then Inr [(fieldName field,
                                             map fst (idRecordsMap (sourceData
                                               (taskData st (taskId parentTask)))))]
                                  else Inr []))
                      else Inr [])
            else Inr [])
         else
           (if isSimple field \<and> isExternalIdField field
            then Inr [(fieldName field,
                       map (\<lambda>v. getFieldValue env (sObjectName self) v (fieldName field))
                         (map fst (extIdRecordsMap (sourceData (taskData st (taskId self))))))]
            else Inr []))"

text \<open>Lines 929--1005.\<close>

definition createFilteredQueries ::
  "CONSTANTS \<Rightarrow> Collaborators \<Rightarrow> MigrationJob \<Rightarrow> RetrieveState \<Rightarrow> Task \<Rightarrow> QueryMode \<Rightarrow> bool \<Rightarrow>
   JsError + jsstring list" where
  "createFilteredQueries C env job st self queryMode reversed =
     (let isSource = (queryMode \<noteq> target);
          fieldsToQueryMap =
            (if reversed then
               (if sObjectName self \<notin> set (NOT_TO_USE_IN_FILTERED_QUERYIN_CLAUSE C)
                then map_sum id (\<lambda>vals. [(js ''Id'', vals)]) (reversedValues env job st self)
                else Inr [])
             else
               fold (\<lambda>field acc.
                       case acc of Inl e \<Rightarrow> Inl e
                       | Inr entries \<Rightarrow>
                           map_sum id (\<lambda>new. entries @ new)
                             (fieldToQuery C env job st self queryMode field))
                    (map snd (fieldsInQueryMap (scriptObject self))) (Inr []));
          queries0 = (if isSource \<and> isLimitedQuery (scriptObject self) \<and> \<not> reversed
                      then [createQuery env self None False None] else [])
      in map_sum id
           (\<lambda>entries.
              queries0 @
              concat (map (\<lambda>(fname, inValues).
                             if length inValues > 0
                             then createFieldInQueries env (fieldsInQuery self) fname
                                    (sObjectName self) inValues
                             else [])
                          entries))
           fieldsToQueryMap)"

text \<open>Lines 659--664 and 735--740: the fetched records are merged into one endpoint's
  bucket of the task.\<close>

definition mergeFetched ::
  "Collaborators \<Rightarrow> Task \<Rightarrow> bool \<Rightarrow> row list \<Rightarrow> RetrieveState \<Rightarrow> RetrieveState" where
  "mergeFetched env self isSource records st =
     (let d = taskData st (taskId self);
          d' = (if isSource then d\<lparr>sourceData := updateOrgData env self records (sourceData d)\<rparr>
                else d\<lparr>targetData := updateOrgData env self records (targetData d)\<rparr>)
      in st\<lparr>taskData := (taskData st)(taskId self := d')\<rparr>)"

text \<open>Lines 622--658: the main read of the source.\<close>

definition retrieveSourceMain ::
  "CONSTANTS \<Rightarrow> Collaborators \<Rightarrow> MigrationJob \<Rightarrow> Task \<Rightarrow> QueryMode \<Rightarrow> bool \<Rightarrow> RetrieveState \<Rightarrow>
   JsError + RetrieveState" where
  "retrieveSourceMain C env job self queryMode reversed st =
     (let s = script job
      in if media (sourceOrg s) = File \<and> queryMode = forwards then
           (case fetchRecords env (targetOrg s) (createQuery env self None False None) False
                   (Some (sourceCsvFilename C s self)) st of
              (records, st') \<Rightarrow> Inr (mergeFetched env self True records st'))
         else if processAllSource (scriptObject self) \<and> queryMode = forwards then
           (case fetchRecords env (sourceOrg s) (createQuery env self None False None)
                   (useBulkQueryApi C (taskData st (taskId self)) True) None st of
              (records, st') \<Rightarrow> Inr (mergeFetched env self True records st'))
         else if \<not> processAllSource (scriptObject self) then
           (case createFilteredQueries C env job st self queryMode reversed of
              Inl e \<Rightarrow> Inl e
            | Inr queries \<Rightarrow>
                if length queries > 0 then
                  (case retrieveFilteredRecords env (sourceOrg s) queries st of
                     (records, st') \<Rightarrow> Inr (mergeFetched env self True records st'))
                else Inr st)
         else Inr st)"

text \<open>Lines 668--701: the records a self-reference field points to.\<close>

definition retrieveSelfReference ::
  "Collaborators \<Rightarrow> MigrationJob \<Rightarrow> Task \<Rightarrow> QueryMode \<Rightarrow> RetrieveState \<Rightarrow> RetrieveState" where
  "retrieveSelfReference env job self queryMode st =
     (let s = script job
      in if media (sourceOrg s) = Org \<and> queryMode = forwards then
           (let inValues =
                  concat (map (\<lambda>describe.
                                 if isSimpleSelfReference describe
                                 then filter truthy
                                        (map (\<lambda>sourceRec. getProp sourceRec (fieldName describe))
                                           (map snd (idRecordsMap (sourceData
                                              (taskData st (taskId self))))))
                                 else [])
                              (fieldsInQuerySFields self))
            in if length inValues > 0 then
                 (let queries = createFieldInQueries env (fieldsInQuery self) (js ''Id'')
                                  (sObjectName self) (distinctStringArray env inValues)
                  in case retrieveFilteredRecords env (sourceOrg s) queries st of
                       (records, st') \<Rightarrow>
                         if length queries > 0 then mergeFetched env self True records st'
                         else st')
               else st)
         else st)"

text \<open>Lines 707--741: the read of the target.\<close>

definition retrieveTarget ::
  "CONSTANTS \<Rightarrow> Collaborators \<Rightarrow> MigrationJob \<Rightarrow> Task \<Rightarrow> QueryMode \<Rightarrow> bool \<Rightarrow> RetrieveState \<Rightarrow>
   JsError + RetrieveState" where
  "retrieveTarget C env job self queryMode reversed st =
     (let s = script job
      in if media (targetOrg s) = Org \<and> operation (scriptObject self) \<noteq> Insert then
           (if processAllTarget (scriptObject self) then
              (case fetchRecords env (targetOrg s) (createQuery env self None False None)
                      (useBulkQueryApi C (taskData st (taskId self)) False) None st of
                 (records, st') \<Rightarrow> Inr (mergeFetched env self False records st'))
            else
              (case createFilteredQueries C env job st self queryMode reversed of
                 Inl e \<Rightarrow> Inl e
               | Inr queries \<Rightarrow>
                   if length queries > 0 then
                     (case retrieveFilteredRecords env (targetOrg s) queries st of
                        (records, st') \<Rightarrow> Inr (mergeFetched env self False records st'))
                   else Inr st))
         else Inr st)"

text \<open>Lines 610--781.\<close>

definition retrieveRecords ::
  "CONSTANTS \<Rightarrow> Collaborators \<Rightarrow> MigrationJob \<Rightarrow> Task \<Rightarrow> QueryMode \<Rightarrow> bool \<Rightarrow> RetrieveState \<Rightarrow>
   JsError + RetrieveState" where
  "retrieveRecords C env job self queryMode reversed st =
     (if operation (scriptObject self) = Delete then Inr st
      else if queryMode \<noteq> target then
        (case retrieveSourceMain C env job self queryMode reversed st of
           Inl e \<Rightarrow> Inl e
         | Inr st1 \<Rightarrow> Inr (retrieveSelfReference env job self queryMode st1))
      else retrieveTarget C env job self queryMode reversed st)"

section \<open>Flat files: \<^verbatim>\<open>validateCSV\<close> and \<^verbatim>\<open>repairCSV\<close>\<close>

text \<open>The structural/repair issue record (\<^verbatim>\<open>ICSVIssues\<close>); \<open>Null\<close> is
  \<^verbatim>\<open>null\<close>.\<close>

record ICSVIssues =
  issueDate :: jsstring
  childSObject :: jsstring
  childField :: jsval
  childValue :: jsval
  parentSObject :: jsval
  parentField :: jsval
  parentValue :: jsval
  issueError :: jsstring

text \<open>Lines 107--116: the issue reported for a missing or empty file.\<close>

definition emptyFileIssue :: "Collaborators \<Rightarrow> Task \<Rightarrow> ICSVIssues" where
  "emptyFileIssue env self =
     \<lparr>issueDate = formatDateTimeNow env, childSObject = sObjectName self,
      childField = Null, childValue = Null, parentSObject = Null, parentField = Null,
      parentValue = Null, issueError = getResourceString env csvFileIsEmpty\<rparr>"

text \<open>Lines 125--130: does a header column stand for the field?\<close>

definition columnExists :: "row \<Rightarrow> jsstring \<Rightarrow> bool" where
  "columnExists headerRow fldName =
     list_ex (\<lambda>columnName.
                let columnName' = trim columnName; nameParts = split (cu (CHR ''.'')) columnName'
                in columnName' = fldName \<or> list_ex (\<lambda>namePart. namePart = fldName) nameParts)
             (Object_keys headerRow)"

text \<open>Lines 124--144: the check of one field to update.\<close>

definition checkColumn :: "Collaborators \<Rightarrow> Task \<Rightarrow> row \<Rightarrow> jsstring \<Rightarrow> ICSVIssues list" where
  "checkColumn env self headerRow fldName =
     (if \<not> columnExists headerRow fldName
      then [\<lparr>issueDate = formatDateTimeNow env, childSObject = sObjectName self,
             childField = Str fldName, childValue = Null, parentSObject = Null,
             parentField = Null, parentValue = Null,
             issueError = getResourceString env columnsMissingInCSV\<rparr>]
      else [])"

text \<open>Lines 97--147.\<close>

definition validateCSV :: "CONSTANTS \<Rightarrow> Collaborators \<Rightarrow> MigrationJob \<Rightarrow> Task \<Rightarrow> ICSVIssues list" where
  "validateCSV C env job self =
     (let csvColumnsRow = readCsvFileAsync env (sourceCsvFilename C (script job) self) 1
      in if length csvColumnsRow = 0 then [emptyFileIssue env self]
         else concat (map (checkColumn env self (csvColumnsRow ! 0))
                        (map fst (fieldsToUpdateMap (scriptObject self)))))"

subsection \<open>The file cache\<close>

text \<open>
  A parsed file is a \<^verbatim>\<open>Map\<close> from row key to row object. The row objects are
  shared between everything that holds the file, so a row is referred to by the path of
  its file and its position in the file's map, and every write goes to the cache.
\<close>

type_synonym csvfile = "(jsval, row) jsmap"

record CachedCSVContent =
  csvDataCacheMap :: "(jsstring, csvfile) jsmap"
  updatedFilenames :: "jsstring set"
  idCounter :: nat

text \<open>Modelled from the spec: \<^verbatim>\<open>cachedCSVContent.nextId\<close> is declared outside the two
  files. It is the job-wide, monotonically increasing synthetic-identifier counter: each
  read gives the identifier of the current count and advances the counter.\<close>

definition nextId :: "Collaborators \<Rightarrow> CachedCSVContent \<Rightarrow> jsval \<times> CachedCSVContent" where
  "nextId env c = (Str (formatNextId env (idCounter c)), c\<lparr>idCounter := Suc (idCounter c)\<rparr>)"

text \<open>Modelled from the spec: \<^verbatim>\<open>Common.readCsvFileOnceAsync\<close> is declared outside the
  two files. It is the lazy cache with one parse per distinct path: a cached path gives
  the cached map, any other path is parsed and cached (a missing file parses to the
  empty map).\<close>

definition readCsvFileOnce ::
  "Collaborators \<Rightarrow> CachedCSVContent \<Rightarrow> jsstring \<Rightarrow> csvfile \<times> CachedCSVContent" where
  "readCsvFileOnce env c path =
     (case Map_get (csvDataCacheMap c) path of
        Some f \<Rightarrow> (f, c)
      | None \<Rightarrow> (readCsvFile env path,
                 c\<lparr>csvDataCacheMap := Map_set path (readCsvFile env path) (csvDataCacheMap c)\<rparr>))"

definition fileAt :: "CachedCSVContent \<Rightarrow> jsstring \<Rightarrow> csvfile" where
  "fileAt c path = (case Map_get (csvDataCacheMap c) path of None \<Rightarrow> [] | Some f \<Rightarrow> f)"

definition rowAt :: "CachedCSVContent \<Rightarrow> jsstring \<Rightarrow> nat \<Rightarrow> row" where
  "rowAt c path i = snd (fileAt c path ! i)"

text \<open>A write to the row object at a position of a cached file.\<close>

definition updateRow :: "jsstring \<Rightarrow> nat \<Rightarrow> (row \<Rightarrow> row) \<Rightarrow> CachedCSVContent \<Rightarrow> CachedCSVContent" where
  "updateRow path i f c =
     (case Map_get (csvDataCacheMap c) path of
        None \<Rightarrow> c
      | Some file \<Rightarrow>
          if i < length file
          then c\<lparr>csvDataCacheMap :=
                   Map_set path (file[i := (fst (file ! i), f (snd (file ! i)))])
                     (csvDataCacheMap c)\<rparr>
          else c)"

definition markUpdated :: "jsstring \<Rightarrow> CachedCSVContent \<Rightarrow> CachedCSVContent" where
  "markUpdated path c = c\<lparr>updatedFilenames := insert path (updatedFilenames c)\<rparr>"

text \<open>\<^verbatim>\<open>m.get(k)\<close> on a file: the position of the row object it returns.\<close>

fun Map_index :: "('k, 'v) jsmap \<Rightarrow> 'k \<Rightarrow> nat option" where
  "Map_index [] k = None"
| "Map_index (p # ps) k =
     (if fst p = k then Some 0 else map_option Suc (Map_index ps k))"

subsection \<open>The steps of the repair\<close>

text \<open>Lines 238--256: \<^verbatim>\<open>___trimColumnNames\<close>.\<close>

definition renameColumn :: "jsstring \<Rightarrow> row \<Rightarrow> row" where
  "renameColumn column csvRow = deleteProp column (setProp (trim column) (getProp csvRow column) csvRow)"

definition trimColumnNames :: "jsstring \<Rightarrow> CachedCSVContent \<Rightarrow> CachedCSVContent" where
  "trimColumnNames path c =
     (let columnsToUpdate = filter (\<lambda>field. field \<noteq> trim field) (Object_keys (rowAt c path 0))
      in if length columnsToUpdate > 0
         then markUpdated path
                (fold (\<lambda>column c'.
                         fold (\<lambda>i. updateRow path i (renameColumn column))
                              [0 ..< length (fileAt c path)] c')
                      columnsToUpdate c)
         else c)"

text \<open>Lines 214--231: \<^verbatim>\<open>___updateWithCSVValueMapping\<close>.\<close>

definition mapValue :: "(jsstring, jsstring) jsmap \<Rightarrow> jsstring \<Rightarrow> row \<Rightarrow> row" where
  "mapValue valuesMap field csvRow =
     (let rawValue = trim (String_of (getProp csvRow field))
      in case Map_get valuesMap rawValue of
           Some v \<Rightarrow> setProp field (Str v) csvRow
         | None \<Rightarrow> csvRow)"

definition updateWithCSVValueMapping ::
  "MigrationJob \<Rightarrow> Task \<Rightarrow> jsstring \<Rightarrow> CachedCSVContent \<Rightarrow> CachedCSVContent" where
  "updateWithCSVValueMapping job self path c =
     (let fields = Object_keys (rowAt c path 0)
      in markUpdated path
           (fold (\<lambda>field c'.
                    case Map_get (csvValuesMapping job) (sObjectName self @ field) of
                      None \<Rightarrow> c'
                    | Some valuesMap \<Rightarrow>
                        if length valuesMap > 0
                        then fold (\<lambda>i. updateRow path i (mapValue valuesMap field))
                               [0 ..< length (fileAt c path)] c'
                        else c')
                 fields c))"

text \<open>Lines 262--268: \<^verbatim>\<open>___addMissingIdColumn\<close>. The keys of a map are distinct, so
  \<^verbatim>\<open>currentFileMap.get(id)\<close> is the row at the position of \<^verbatim>\<open>id\<close>.\<close>

definition addMissingIdColumn :: "jsstring \<Rightarrow> CachedCSVContent \<Rightarrow> CachedCSVContent" where
  "addMissingIdColumn path c =
     markUpdated path
       (fold (\<lambda>i c'. updateRow path i (setProp (js ''Id'') (fst (fileAt c' path ! i))) c')
             [0 ..< length (fileAt c path)] c)"

text \<open>Lines 284--289 and 389--394: the rows of a file by the value each of them yields;
  a later row replaces an earlier one with the same value.\<close>

definition rowsByValue ::
  "(row \<Rightarrow> jsval) \<Rightarrow> CachedCSVContent \<Rightarrow> jsstring \<Rightarrow> (jsval, nat) jsmap" where
  "rowsByValue valueOf c path =
     fold (\<lambda>i m. let key = valueOf (rowAt c path i)
                  in if truthy key then Map_set key i m else m)
          [0 ..< length (fileAt c path)] []"

record RepairState =
  cache :: CachedCSVContent
  csvIssues :: "ICSVIssues list"
  isFileChanged :: bool

text \<open>Lines 291--358: one row of \<^verbatim>\<open>___addMissingLookupColumnsAsync\<close>.\<close>

definition lookupRowStep ::
  "Collaborators \<Rightarrow> Task \<Rightarrow> SFieldDescribe \<Rightarrow> Task \<Rightarrow> jsstring \<Rightarrow> jsstring \<Rightarrow>
   (jsval, nat) jsmap \<Rightarrow> nat \<Rightarrow> RepairState \<Rightarrow> RepairState" where
  "lookupRowStep env self sField parentTask path parentPath parentCSVRowsMap i st =
     (let columnName__r = fullName__r sField;
          columnNameId = nameId sField;
          parentExtId = parentExternalId (parentLookupObject sField);
          csvRow = rowAt (cache st) path i
      in if \<not> hasOwnProperty csvRow columnNameId then
           (if \<not> hasOwnProperty csvRow columnName__r then
              (case nextId env (cache st) of (id1, c1) \<Rightarrow>
               case nextId env (updateRow path i (setProp columnNameId id1) c1) of (id2, c2) \<Rightarrow>
                 st\<lparr>cache := updateRow path i (setProp columnName__r id2) c2,
                    isFileChanged := True\<rparr>)
            else
              (let desiredExternalIdValue =
                     getRecordValue env (sObjectName parentTask) csvRow parentExtId
                       (Some (sObjectName self)) (Some columnName__r)
               in if truthy desiredExternalIdValue then
                    (case Map_get parentCSVRowsMap desiredExternalIdValue of
                       None \<Rightarrow>
                         (case nextId env (cache st) of (id1, c1) \<Rightarrow>
                            st\<lparr>cache := updateRow path i (setProp columnNameId id1) c1,
                               csvIssues := csvIssues st @
                                 [\<lparr>issueDate = formatDateTimeNow env,
                                   childSObject = sObjectName self,
                                   childField = Str columnName__r,
                                   childValue = desiredExternalIdValue,
                                   parentSObject = Str (parentName (parentLookupObject sField)),
                                   parentField = Str parentExtId,
                                   parentValue = Null,
                                   issueError = getResourceString env
                                     missingParentRecordForGivenLookupValue\<rparr>],
                               isFileChanged := True\<rparr>)
                     | Some j \<Rightarrow>
                         st\<lparr>cache := updateRow path i
                                        (setProp columnNameId
                                           (getProp (rowAt (cache st) parentPath j) (js ''Id'')))
                                        (cache st),
                            isFileChanged := True\<rparr>)
                  else st))
         else if \<not> hasOwnProperty csvRow columnName__r then
           (if \<not> hasOwnProperty csvRow columnNameId then
              (case nextId env (cache st) of (id1, c1) \<Rightarrow>
               case nextId env (updateRow path i (setProp columnNameId id1) c1) of (id2, c2) \<Rightarrow>
                 st\<lparr>cache := updateRow path i (setProp columnName__r id2) c2,
                    isFileChanged := True\<rparr>)
            else
              (let idValue = getProp csvRow columnNameId
               in if truthy idValue then
                    (case Map_index (fileAt (cache st) parentPath) idValue of
                       None \<Rightarrow>
                         (case nextId env (cache st) of (id1, c1) \<Rightarrow>
                            st\<lparr>cache := updateRow path i (setProp columnName__r id1) c1,
                               csvIssues := csvIssues st @
                                 [\<lparr>issueDate = formatDateTimeNow env,
                                   childSObject = sObjectName self,
                                   childField = Str columnNameId,
                                   childValue = idValue,
                                   parentSObject = Str (parentName (parentLookupObject sField)),
                                   parentField = Str (js ''Id''),
                                   parentValue = Null,
                                   issueError = getResourceString env
                                     missingParentRecordForGivenLookupValue\<rparr>],
                               isFileChanged := True\<rparr>)
                     | Some j \<Rightarrow>
                         st\<lparr>cache := updateRow path i
                                        (setProp columnName__r
                                           (getProp (rowAt (cache st) parentPath j) parentExtId))
                                        (cache st),
                            isFileChanged := True\<rparr>)
                  else st))
         else st)"

text \<open>Lines 276--363: \<^verbatim>\<open>___addMissingLookupColumnsAsync\<close>. The state carries the
  cache and the issues found so far.\<close>

definition addMissingLookupColumns ::
  "CONSTANTS \<Rightarrow> Collaborators \<Rightarrow> MigrationJob \<Rightarrow> Task \<Rightarrow> SFieldDescribe \<Rightarrow>
   CachedCSVContent \<times> ICSVIssues list \<Rightarrow> CachedCSVContent \<times> ICSVIssues list" where
  "addMissingLookupColumns C env job self sField ci =
     (case getTaskBySObjectName job (parentName (parentLookupObject sField)) of
        None \<Rightarrow> ci
      | Some parentTask \<Rightarrow>
          (let path = sourceCsvFilename C (script job) self;
               parentPath = sourceCsvFilename C (script job) parentTask;
               c1 = snd (readCsvFileOnce env (fst ci) parentPath);
               parentCSVRowsMap =
                 rowsByValue (\<lambda>parentCsvRow.
                                getRecordValue env (sObjectName parentTask) parentCsvRow
                                  (parentExternalId (parentLookupObject sField)) None None)
                             c1 parentPath;
               st = fold (lookupRowStep env self sField parentTask path parentPath
                            parentCSVRowsMap)
                         [0 ..< length (fileAt c1 path)]
                         \<lparr>cache = c1, csvIssues = snd ci, isFileChanged = False\<rparr>
           in (if isFileChanged st then markUpdated path (cache st) else cache st,
               csvIssues st)))"

text \<open>Lines 395--402: one row of the child file.\<close>

definition childRowStep ::
  "Collaborators \<Rightarrow> Task \<Rightarrow> Task \<Rightarrow> ChildIdSField \<Rightarrow> jsstring \<Rightarrow> jsstring \<Rightarrow>
   (jsval, nat) jsmap \<Rightarrow> nat \<Rightarrow> RepairState \<Rightarrow> RepairState" where
  "childRowStep env self childTask childIdSField path childPath parentCSVExtIdMap j st =
     (let csvRow = rowAt (cache st) childPath j;
          extIdValue = getRecordValue env (sObjectName self) csvRow
                         (originalExternalId (scriptObject self))
                         (Some (sObjectName childTask))
                         (Some (childFullOriginalName__r childIdSField))
      in case (if truthy extIdValue then Map_get parentCSVExtIdMap extIdValue else None) of
           None \<Rightarrow> st
         | Some i \<Rightarrow>
             (let c1 = updateRow childPath j
                         (setProp (childNameId childIdSField)
                            (getProp (rowAt (cache st) path i) (js ''Id'')))
                         (cache st);
                  c2 = updateRow childPath j
                         (setProp (childFullIdName__r childIdSField)
                            (getProp (rowAt c1 childPath j) (childNameId childIdSField)))
                         c1
              in st\<lparr>cache := c2, isFileChanged := True\<rparr>))"

text \<open>Lines 375--421: \<^verbatim>\<open>___updateChildOriginalIdColumnsAsync\<close>.\<close>

definition updateChildOriginalIdColumns ::
  "CONSTANTS \<Rightarrow> Collaborators \<Rightarrow> MigrationJob \<Rightarrow> Task \<Rightarrow> ChildIdSField \<Rightarrow>
   CachedCSVContent \<times> ICSVIssues list \<Rightarrow> CachedCSVContent \<times> ICSVIssues list" where
  "updateChildOriginalIdColumns C env job self childIdSField ci =
     (let parentOriginalExternalIdColumnName = originalExternalId (scriptObject self)
      in if parentOriginalExternalIdColumnName \<noteq> js ''Id'' then
           (case getTaskBySObjectName job (childScriptObjectName childIdSField) of
              None \<Rightarrow> ci
            | Some childTask \<Rightarrow>
                (let path = sourceCsvFilename C (script job) self;
                     childPath = sourceCsvFilename C (script job) childTask;
                     c1 = snd (readCsvFileOnce env (fst ci) childPath);
                     st0 = \<lparr>cache = c1, csvIssues = snd ci, isFileChanged = False\<rparr>;
                     st =
                       (if length (fileAt c1 childPath) > 0 then
                          (if hasOwnProperty (rowAt c1 childPath 0)
                                (childFullOriginalName__r childIdSField)
                           then fold (childRowStep env self childTask childIdSField path
                                        childPath
                                        (rowsByValue
                                           (\<lambda>csvRow. getRecordValue env (sObjectName self) csvRow
                                                        parentOriginalExternalIdColumnName
                                                        None None)
                                           c1 path))
                                     [0 ..< length (fileAt c1 childPath)] st0
                           else st0\<lparr>csvIssues := csvIssues st0 @
                                  [\<lparr>issueDate = formatDateTimeNow env,
                                    childSObject = sObjectName childTask,
                                    childField = Str (childFullOriginalName__r childIdSField),
                                    childValue = Null,
                                    parentSObject = Str (sObjectName self),
                                    parentField = Str (js ''Id''),
                                    parentValue = Null,
                                    issueError = getResourceString env
                                      cantUpdateChildLookupCSVColumn\<rparr>]\<rparr>)
                        else st0)
                 in (if isFileChanged st then markUpdated childPath (cache st) else cache st,
                     csvIssues st)))
         else ci)"

text \<open>Lines 197--203: the step of the loop over the fields in the query.\<close>

definition lookupFieldStep ::
  "CONSTANTS \<Rightarrow> Collaborators \<Rightarrow> MigrationJob \<Rightarrow> Task \<Rightarrow> SFieldDescribe \<Rightarrow>
   CachedCSVContent \<times> ICSVIssues list \<Rightarrow> CachedCSVContent \<times> ICSVIssues list" where
  "lookupFieldStep C env job self sField ci =
     (let firstRow = rowAt (fst ci) (sourceCsvFilename C (script job) self) 0
      in if isReference sField
            \<and> (\<not> hasOwnProperty firstRow (fullName__r sField)
               \<or> \<not> hasOwnProperty firstRow (nameId sField))
         then addMissingLookupColumns C env job self sField ci
         else ci)"

text \<open>Lines 158--206. The result is the returned issues and the cache as the call
  leaves it.\<close>

definition repairCSV ::
  "CONSTANTS \<Rightarrow> Collaborators \<Rightarrow> MigrationJob \<Rightarrow> Task \<Rightarrow> CachedCSVContent \<Rightarrow>
   ICSVIssues list \<times> CachedCSVContent" where
  "repairCSV C env job self cachedCSVContent =
     (let path = sourceCsvFilename C (script job) self;
          (currentFileMap, c0) = readCsvFileOnce env cachedCSVContent path
      in if length currentFileMap = 0 then ([], c0)
         else
           (let c1 = trimColumnNames path c0;
                c2 = (if useCSVValuesMapping (scriptObject self)
                         \<and> length (csvValuesMapping job) > 0
                      then updateWithCSVValueMapping job self path c1 else c1);
                ci3 = (if \<not> hasOwnProperty (rowAt c2 path 0) (js ''Id'')
                       then fold (updateChildOriginalIdColumns C env job self)
                              (child__rSFields (externalIdSFieldDescribe (scriptObject self)))
                              (addMissingIdColumn path c2, [])
                       else (c2, []));
                ci4 = fold (lookupFieldStep C env job self) (fieldsInQuerySFields self) ci3
            in (snd ci4, fst ci4)))"

section \<open>Execution engine selector: \<^verbatim>\<open>createApiEngine\<close>\<close>

text \<open>The construction parameters common to the three engines.\<close>

record EngineInit =
  engineConnectionData :: jsstring
  engineSObjectName :: jsstring
  engineOperation :: OPERATION
  enginePollingIntervalMs :: int
  engineUpdateRecordId :: bool
  targetCSVFullFilename :: jsstring
  engineCreateTargetCSVFiles :: bool

datatype IApiEngine =
    BulkApiV2_0Engine EngineInit
  | BulkApiV1_0Engine EngineInit int
  | RestApiEngine EngineInit bool

text \<open>Modelled from the spec: \<^verbatim>\<open>ScriptObject.getStrOperation\<close> is declared outside the
  two files; target file names are suffixed by the lower-case operation name.\<close>

fun strOperationLower :: "OPERATION \<Rightarrow> jsstring" where
  "strOperationLower Insert = js ''insert''"
| "strOperationLower Update = js ''update''"
| "strOperationLower Upsert = js ''upsert''"
| "strOperationLower Readonly = js ''readonly''"
| "strOperationLower Delete = js ''delete''"

text \<open>Lines 1040--1046.\<close>

definition targetCSVFilename :: "CONSTANTS \<Rightarrow> Script \<Rightarrow> Task \<Rightarrow> OPERATION \<Rightarrow> jsstring" where
  "targetCSVFilename C s t op =
     getCSVFilename C t (path_join (basePath s) (CSV_TARGET_SUB_DIRECTORY C))
       (js ''_'' @ strOperationLower op @ CSV_TARGET_FILE_SUFFIX C)"

definition engineInit ::
  "CONSTANTS \<Rightarrow> Script \<Rightarrow> Task \<Rightarrow> ScriptOrg \<Rightarrow> OPERATION \<Rightarrow> bool \<Rightarrow> EngineInit" where
  "engineInit C s self org op updateRecordId =
     \<lparr>engineConnectionData = connectionData org,
      engineSObjectName = sObjectName self,
      engineOperation = op,
      enginePollingIntervalMs = pollingIntervalMs s,
      engineUpdateRecordId = updateRecordId,
      targetCSVFullFilename = targetCSVFilename C s self op,
      engineCreateTargetCSVFiles = createTargetCSVFiles s\<rparr>"

text \<open>Lines 815--862: the engine stored in \<^verbatim>\<open>this.apiEngine\<close> and returned.\<close>

definition createApiEngine ::
  "CONSTANTS \<Rightarrow> Script \<Rightarrow> Task \<Rightarrow> ScriptOrg \<Rightarrow> OPERATION \<Rightarrow> int \<Rightarrow> bool \<Rightarrow> IApiEngine" where
  "createApiEngine C s self org op amountOfRecordsToProcess updateRecordId =
     (if amountOfRecordsToProcess > bulkThreshold s \<and> \<not> alwaysUseRestApiToUpdateRecords s
      then (if bulkApiVersionNumber s = 2
            then BulkApiV2_0Engine (engineInit C s self org op updateRecordId)
            else BulkApiV1_0Engine (engineInit C s self org op updateRecordId)
                   (bulkApiV1BatchSize s))
      else RestApiEngine (engineInit C s self org op updateRecordId) (allOrNone s))"

text \<open>Which of the three engines was chosen.\<close>

datatype EngineKind = BulkV2 | BulkV1 | Rest

fun engineKind :: "IApiEngine \<Rightarrow> EngineKind" where
  "engineKind (BulkApiV2_0Engine _) = BulkV2"
| "engineKind (BulkApiV1_0Engine _ _) = BulkV1"
| "engineKind (RestApiEngine _ _) = Rest"

section \<open>Notions for the repair of an already repaired file\<close>

text \<open>A column name without white space around it.\<close>

definition trimmedName :: "jsstring \<Rightarrow> bool" where
  "trimmedName s = (trim s = s)"

text \<open>The descriptors of a task name their columns without white space around them: the
  lookup-id and relationship columns of its reference fields, and the columns its
  external-id field has in the files of child objects.\<close>

definition columnNamesTrimmed :: "Task \<Rightarrow> bool" where
  "columnNamesTrimmed self =
     (list_all (\<lambda>f. \<not> isReference f \<or> (trimmedName (nameId f) \<and> trimmedName (fullName__r f)))
        (fieldsInQuerySFields self)
      \<and> list_all (\<lambda>ch. trimmedName (childNameId ch) \<and> trimmedName (childFullIdName__r ch))
          (child__rSFields (externalIdSFieldDescribe (scriptObject self))))"

text \<open>\<^verbatim>\<open>Common.getRecordValue\<close>, when it is told the object and the property to read,
  looks at nothing else of the record.\<close>

definition readsNamedColumn :: "Collaborators \<Rightarrow> bool" where
  "readsNamedColumn env =
     (\<forall>thisName r r' propName sObjName col.
        getProp r col = getProp r' col \<longrightarrow>
        getRecordValue env thisName r propName (Some sObjName) (Some col)
          = getRecordValue env thisName r' propName (Some sObjName) (Some col))"

text \<open>A value mapping applies to the task (line 179).\<close>

definition valueMappingApplies :: "MigrationJob \<Rightarrow> Task \<Rightarrow> bool" where
  "valueMappingApplies job self =
     (useCSVValuesMapping (scriptObject self) \<and> length (csvValuesMapping job) > 0)"

text \<open>A cell that the value mapping of its column leaves as it is (lines 222--225): the
  trimmed text of its value is no raw value of the column's table, or the table maps it to
  the very value the cell holds.\<close>

definition cellSettled :: "(jsstring, jsstring) jsmap \<Rightarrow> jsstring \<Rightarrow> row \<Rightarrow> bool" where
  "cellSettled valuesMap field csvRow =
     (case Map_get valuesMap (trim (String_of (getProp csvRow field))) of
        None \<Rightarrow> True
      | Some v \<Rightarrow> getProp csvRow field = Str v)"

text \<open>The value mapping has nothing to rewrite in the file of the task: no value mapping
  applies to the task, or every cell of every column that has a table is settled.\<close>

definition valueMappingSettled ::
  "CONSTANTS \<Rightarrow> MigrationJob \<Rightarrow> Task \<Rightarrow> CachedCSVContent \<Rightarrow> bool" where
  "valueMappingSettled C job self c =
     (let path = sourceCsvFilename C (script job) self
      in valueMappingApplies job self \<longrightarrow>
         list_all (\<lambda>field.
                     case Map_get (csvValuesMapping job) (sObjectName self @ field) of
                       None \<Rightarrow> True
                     | Some valuesMap \<Rightarrow>
                         list_all (cellSettled valuesMap field) (map snd (fileAt c path)))
           (Object_keys (rowAt c path 0)))"

text \<open>A row on which \<^verbatim>\<open>___addMissingLookupColumnsAsync\<close> has nothing to do for a
  field: it has both columns, or it has only one of them and that one is empty.\<close>

definition settledRow ::
  "Collaborators \<Rightarrow> Task \<Rightarrow> Task \<Rightarrow> SFieldDescribe \<Rightarrow> row \<Rightarrow> bool" where
  "settledRow env self parentTask sField csvRow =
     ((hasOwnProperty csvRow (nameId sField) \<and> hasOwnProperty csvRow (fullName__r sField))
      \<or> (\<not> hasOwnProperty csvRow (nameId sField) \<and> hasOwnProperty csvRow (fullName__r sField)
          \<and> \<not> truthy (getRecordValue env (sObjectName parentTask) csvRow
                         (parentExternalId (parentLookupObject sField))
                         (Some (sObjectName self)) (Some (fullName__r sField))))
      \<or> (hasOwnProperty csvRow (nameId sField) \<and> \<not> hasOwnProperty csvRow (fullName__r sField)
          \<and> \<not> truthy (getProp csvRow (nameId sField))))"

text \<open>A row that has all columns of another one, with the same values.\<close>

definition extendsRow :: "row \<Rightarrow> row \<Rightarrow> bool" where
  "extendsRow r r' = (\<forall>k. hasOwnProperty r k \<longrightarrow> hasOwnProperty r' k \<and> getProp r' k = getProp r k)"

definition cachedPath :: "CachedCSVContent \<Rightarrow> jsstring \<Rightarrow> bool" where
  "cachedPath c path = Map_has (csvDataCacheMap c) path"

text \<open>A later cache: every cached file is still cached with as many rows, and the rows of
  the file at \<open>path\<close> have only gained columns.\<close>

definition extendsCache :: "jsstring \<Rightarrow> CachedCSVContent \<Rightarrow> CachedCSVContent \<Rightarrow> bool" where
  "extendsCache path c c' =
     ((\<forall>p. cachedPath c p \<longrightarrow> cachedPath c' p)
      \<and> (\<forall>p. length (fileAt c' p) = length (fileAt c p) \<or> \<not> cachedPath c p)
      \<and> (\<forall>i < length (fileAt c path). extendsRow (rowAt c path i) (rowAt c' path i)))"

text \<open>The file of a task as a repair leaves it: cached and not empty, its first row with an
  \<open>Id\<close> column and with trimmed column names only.\<close>

definition repairedHeader :: "CachedCSVContent \<Rightarrow> jsstring \<Rightarrow> bool" where
  "repairedHeader c path =
     (cachedPath c path \<and> length (fileAt c path) > 0
      \<and> hasOwnProperty (rowAt c path 0) (js ''Id'')
      \<and> list_all trimmedName (Object_keys (rowAt c path 0)))"

text \<open>Every reference field whose columns the first row lacks has its parent file cached
  and all rows settled.\<close>

definition lookupsSettled ::
  "CONSTANTS \<Rightarrow> Collaborators \<Rightarrow> MigrationJob \<Rightarrow> Task \<Rightarrow> SFieldDescribe list \<Rightarrow>
   CachedCSVContent \<Rightarrow> bool" where
  "lookupsSettled C env job self flds c =
     (let path = sourceCsvFilename C (script job) self
      in \<forall>f \<in> set flds. \<forall>parentTask.
           isReference f
           \<and> (\<not> hasOwnProperty (rowAt c path 0) (fullName__r f)
              \<or> \<not> hasOwnProperty (rowAt c path 0) (nameId f))
           \<and> getTaskBySObjectName job (parentName (parentLookupObject f)) = Some parentTask
           \<longrightarrow> cachedPath c (sourceCsvFilename C (script job) parentTask)
               \<and> (\<forall>i < length (fileAt c path). settledRow env self parentTask f (rowAt c path i)))"

text \<open>What a row step leaves behind: only the row it visits may differ, and that row has
  gained columns and is settled.\<close>

definition rowStepEffect ::
  "Collaborators \<Rightarrow> Task \<Rightarrow> Task \<Rightarrow> SFieldDescribe \<Rightarrow> jsstring \<Rightarrow> nat \<Rightarrow>
   CachedCSVContent \<Rightarrow> CachedCSVContent \<Rightarrow> bool" where
  "rowStepEffect env self parentTask f path i c c' =
     (\<exists>row'. (\<forall>q j. rowAt c' q j = (if q = path \<and> j = i then row' else rowAt c q j))
        \<and> extendsRow (rowAt c path i) row'
        \<and> settledRow env self parentTask f row'
        \<and> set (Object_keys row') \<subseteq> set (Object_keys (rowAt c path i)) \<union> {nameId f, fullName__r f}
        \<and> (\<forall>q. length (fileAt c' q) = length (fileAt c q))
        \<and> (\<forall>q. cachedPath c' q = cachedPath c q))"

text \<open>The effect of the row steps for a list of positions.\<close>

definition rowsEffect ::
  "Collaborators \<Rightarrow> Task \<Rightarrow> Task \<Rightarrow> SFieldDescribe \<Rightarrow> jsstring \<Rightarrow> nat list \<Rightarrow>
   CachedCSVContent \<Rightarrow> CachedCSVContent \<Rightarrow> bool" where
  "rowsEffect env self parentTask f path visited c c' =
     (extendsCache path c c'
      \<and> (\<forall>q. length (fileAt c' q) = length (fileAt c q))
      \<and> (\<forall>q. cachedPath c' q = cachedPath c q)
      \<and> (\<forall>j. set (Object_keys (rowAt c' path j))
               \<subseteq> set (Object_keys (rowAt c path j)) \<union> {nameId f, fullName__r f})
      \<and> (\<forall>j \<in> set visited. settledRow env self parentTask f (rowAt c' path j)))"

text \<open>A later cache in which the first row of the file has kept its columns and gained
  trimmed ones only.\<close>

definition headerKept :: "jsstring \<Rightarrow> CachedCSVContent \<Rightarrow> CachedCSVContent \<Rightarrow> bool" where
  "headerKept path c c' =
     ((\<forall>p. cachedPath c p \<longrightarrow> cachedPath c' p \<and> length (fileAt c' p) = length (fileAt c p))
      \<and> set (Object_keys (rowAt c path 0)) \<subseteq> set (Object_keys (rowAt c' path 0))
      \<and> (\<forall>k \<in> set (Object_keys (rowAt c' path 0)).
            k \<in> set (Object_keys (rowAt c path 0)) \<or> trimmedName k))"

text \<open>The header before the identifier column is there.\<close>

definition preHeader :: "CachedCSVContent \<Rightarrow> jsstring \<Rightarrow> bool" where
  "preHeader c path =
     (cachedPath c path \<and> length (fileAt c path) > 0
      \<and> list_all trimmedName (Object_keys (rowAt c path 0)))"

section \<open>Concrete inputs\<close>

text \<open>The inputs at which the theorems below are instantiated and evaluated.\<close>

definition exampleConstants :: CONSTANTS where
  "exampleConstants =
     \<lparr>RECORD_TYPE_SOBJECT_NAME = js ''RecordType'',
      USER_AND_GROUP_FILENAME = js ''UserAndGroup'',
      CSV_SOURCE_SUB_DIRECTORY = js ''source'',
      CSV_SOURCE_FILE_SUFFIX = js ''_source'',
      CSV_TARGET_SUB_DIRECTORY = js ''target'',
      CSV_TARGET_FILE_SUFFIX = js ''_target'',
      QUERY_BULK_API_THRESHOLD = 30000,
      NOT_TO_USE_IN_FILTERED_QUERYIN_CLAUSE = [js ''RecordType'', js ''User'', js ''Group'']\<rparr>"

definition plainField :: "jsstring \<Rightarrow> SFieldDescribe" where
  "plainField n =
     \<lparr>fieldName = n, nameId = n, fullName__r = n, isReference = False, isSimple = True,
      isSimpleReference = False, isSimpleSelfReference = False, isExternalIdField = False,
      referencedObjectType = [],
      parentLookupObject =
        \<lparr>parentName = [], parentExternalId = [], parentIsLimitedQuery = False\<rparr>,
      child__rSFields = []\<rparr>"

text \<open>A lookup field \<open>n\<close> with relationship column \<open>r\<close> to the object \<open>p\<close>, whose
  external id is \<open>Name\<close>.\<close>

definition lookupField :: "jsstring \<Rightarrow> jsstring \<Rightarrow> jsstring \<Rightarrow> SFieldDescribe" where
  "lookupField n r p =
     (plainField n)\<lparr>fullName__r := r, isReference := True, isSimple := False,
        isSimpleReference := True, referencedObjectType := p,
        parentLookupObject :=
          \<lparr>parentName = p, parentExternalId = js ''Name'', parentIsLimitedQuery = False\<rparr>\<rparr>"

definition plainQuery :: Query where
  "plainQuery = \<lparr>queryFields = [], queryLimit = None, queryOffset = None,
                  queryOrderBy = None, queryRest = []\<rparr>"

text \<open>An object with the given name, read-only flag, parent lookups and parent
  master-details, and no fields.\<close>

definition plainObject :: "jsstring \<Rightarrow> bool \<Rightarrow> jsstring list \<Rightarrow> jsstring list \<Rightarrow> ScriptObject" where
  "plainObject n ro lookups masterDetails =
     \<lparr>name = n, operation = (if ro then Readonly else Upsert),
      externalId = js ''Name'', originalExternalId = js ''Name'',
      allRecords = False, isSpecialObject = False, isObjectWithoutRelationships = False,
      hasComplexExternalId = False, hasAutonumberExternalId = False,
      isReadonlyObject = ro, isLimitedQuery = False, useCSVValuesMapping = False,
      processAllSource = False, processAllTarget = False,
      parentLookupObjects = lookups, parentMasterDetailObjects = masterDetails,
      fieldsToUpdateMap = [], fieldsInQueryMap = [],
      externalIdSFieldDescribe = plainField (js ''Name''),
      parsedQuery = plainQuery\<rparr>"

definition exampleScript :: "ScriptObject list \<Rightarrow> Script" where
  "exampleScript obs =
     \<lparr>basePath = js ''data'', objects = obs,
      sourceOrg = \<lparr>media = File, connectionData = js ''csvfile''\<rparr>,
      targetOrg = \<lparr>media = Org, connectionData = js ''target''\<rparr>,
      bulkThreshold = 200, bulkApiVersionNumber = 2, bulkApiV1BatchSize = 9500,
      pollingIntervalMs = 5000, allOrNone = False,
      alwaysUseRestApiToUpdateRecords = False, createTargetCSVFiles = True\<rparr>"

text \<open>Two objects that declare each other as master-detail parent.\<close>

definition cyclicObjects :: "ScriptObject list" where
  "cyclicObjects =
     [plainObject (js ''A'') False [js ''B''] [js ''B''], plainObject (js ''B'') False [js ''A''] [js ''A'']]"

text \<open>Two children \<open>L1\<close> and \<open>L2\<close> of one master-detail parent \<open>R\<close>, and an object
  \<open>X\<close> that looks up both children; no cycle.\<close>

definition sharedParentObjects :: "ScriptObject list" where
  "sharedParentObjects =
     [plainObject (js ''X'') False [js ''L1'', js ''L2''] [],
      plainObject (js ''R'') False [] [],
      plainObject (js ''L1'') False [js ''R''] [js ''R''],
      plainObject (js ''L2'') False [js ''R''] [js ''R'']]"

text \<open>The classification entity, a read-only child \<open>RO\<close> and its master-detail parent
  \<open>P\<close>, which is not read-only.\<close>

definition readonlyChildObjects :: "ScriptObject list" where
  "readonlyChildObjects =
     [plainObject (js ''RecordType'') False [] [],
      plainObject (js ''RO'') True [js ''P''] [js ''P''],
      plainObject (js ''P'') False [] []]"

text \<open>Collaborators for the examples: a record yields the value of the named property
  (of \<open>sFieldName\<close> when it is passed), every file is missing, the remote service
  returns nothing.\<close>

definition plainCollaborators :: Collaborators where
  "plainCollaborators =
     \<lparr>getRecordValue = (\<lambda>thisSObjectName record propName sObjName sFieldName.
                          getProp record (case sFieldName of Some f \<Rightarrow> f | None \<Rightarrow> propName)),
      getComplexField = (\<lambda>x. x),
      getFieldValue = (\<lambda>sObjName v fname. v),
      distinctStringArray = remdups,
      createFieldInQueries = (\<lambda>fields fname sObjName inValues. []),
      composeQuery = queryRest,
      retrieveRecordsAsync = (\<lambda>org query useBulk file. []),
      readCsvFileAsync = (\<lambda>path n. []),
      readCsvFile = (\<lambda>path. []),
      formatDateTimeNow = js ''2020-01-01 00:00:00'',
      getResourceString = (\<lambda>res. case res of
          csvFileIsEmpty \<Rightarrow> js ''CSV file is empty or missing''
        | columnsMissingInCSV \<Rightarrow> js ''Column is missing in the CSV file''
        | missingParentRecordForGivenLookupValue \<Rightarrow> js ''Missing parent record''
        | cantUpdateChildLookupCSVColumn \<Rightarrow> js ''Cannot update the child lookup column''),
      formatNextId = (\<lambda>n. js ''ID'' @ replicate n (cu (CHR ''I'')))\<rparr>"

definition accountTask :: Task where
  "accountTask = \<lparr>taskId = 0, scriptObject = plainObject (js ''Account'') False [] []\<rparr>"

text \<open>The merged result of two queries: the account \<open>001\<close> is fetched twice, with
  different names; \<open>002\<close> is fetched under a new name; one record has no identifier;
  \<open>003\<close> is fetched once. And an identifier index that already holds \<open>002\<close>.\<close>

definition mergedAccounts :: "row list" where
  "mergedAccounts =
     [ [(js ''Id'', Str (js ''001'')), (js ''Name'', Str (js ''Acme''))],
       [(js ''Id'', Str (js ''001'')), (js ''Name'', Str (js ''Acme Ltd''))],
       [(js ''Id'', Str (js ''002'')), (js ''Name'', Str (js ''New''))],
       [(js ''Id'', Null), (js ''Name'', Str (js ''Nameless''))],
       [(js ''Id'', Str (js ''003'')), (js ''Name'', Str (js ''Beta''))]]"

definition knownAccounts :: "(jsval, row) jsmap" where
  "knownAccounts =
     [(Str (js ''002''), [(js ''Id'', Str (js ''002'')), (js ''Name'', Str (js ''Old''))])]"

text \<open>Four fetched accounts: the first two share the external id \<open>Acme\<close>, the third has
  neither identifier nor name, the fourth is named \<open>Beta\<close>. And an external-id index
  that already holds \<open>Acme\<close> and \<open>Gamma\<close>.\<close>

definition emptyAccount :: row where
  "emptyAccount = [(js ''Id'', Null), (js ''Name'', Str [])]"

definition sharedNameAccounts :: "row list" where
  "sharedNameAccounts =
     [ [(js ''Id'', Str (js ''001'')), (js ''Name'', Str (js ''Acme''))],
       [(js ''Id'', Str (js ''002'')), (js ''Name'', Str (js ''Acme''))],
       emptyAccount,
       [(js ''Id'', Str (js ''003'')), (js ''Name'', Str (js ''Beta''))]]"

definition knownExternalIds :: "(jsval, jsval) jsmap" where
  "knownExternalIds =
     [(Str (js ''Acme''), Str (js ''000'')), (Str (js ''Gamma''), Str (js ''009''))]"

text \<open>A job of one task that deletes accounts, and the state before any retrieval.\<close>

definition deleteTask :: Task where
  "deleteTask =
     \<lparr>taskId = 0, scriptObject = (plainObject (js ''Account'') False [] [])\<lparr>operation := Delete\<rparr>\<rparr>"

definition deleteJob :: MigrationJob where
  "deleteJob =
     \<lparr>script = exampleScript [scriptObject deleteTask], tasks = [deleteTask],
      queryTasks = [deleteTask], csvValuesMapping = []\<rparr>"

definition emptyTaskData :: TaskData where
  "emptyTaskData =
     \<lparr>sourceData = \<lparr>extIdRecordsMap = [], idRecordsMap = []\<rparr>,
      targetData = \<lparr>extIdRecordsMap = [], idRecordsMap = []\<rparr>,
      sourceTotalRecorsCount = 0, targetTotalRecorsCount = 0\<rparr>"

definition initialRetrieveState :: RetrieveState where
  "initialRetrieveState = \<lparr>taskData = (\<lambda>t. emptyTaskData), issuedQueries = []\<rparr>"

text \<open>A job of one account task with one field to update, and an empty file cache.\<close>

definition accountJob :: MigrationJob where
  "accountJob =
     \<lparr>script = exampleScript [scriptObject accountTask],
      tasks = [accountTask\<lparr>scriptObject :=
                 (scriptObject accountTask)\<lparr>fieldsToUpdateMap := [(js ''Name'', plainField (js ''Name''))]\<rparr>\<rparr>],
      queryTasks = [], csvValuesMapping = []\<rparr>"

definition emptyCache :: CachedCSVContent where
  "emptyCache = \<lparr>csvDataCacheMap = [], updatedFilenames = {}, idCounter = 1\<rparr>"

text \<open>The same collaborators over a file system that holds the given parsed files.\<close>

definition csvCollaborators :: "(jsstring \<times> csvfile) list \<Rightarrow> Collaborators" where
  "csvCollaborators files =
     plainCollaborators\<lparr>readCsvFile := (\<lambda>path. case map_of files path of
                                                  None \<Rightarrow> [] | Some f \<Rightarrow> f)\<rparr>"

text \<open>Accounts and cases: a case looks up its account through the lookup-id column
  \<open>AccountId\<close> and the relationship column \<open>Account.Name\<close>.\<close>

definition accountObject :: ScriptObject where
  "accountObject = plainObject (js ''Account'') False [] []"

definition caseObject :: "bool \<Rightarrow> ScriptObject" where
  "caseObject mapped =
     (plainObject (js ''Case'') False [js ''Account''] [])
       \<lparr>useCSVValuesMapping := mapped,
        fieldsInQueryMap :=
          [(js ''Id'', plainField (js ''Id'')),
           (js ''AccountId'', lookupField (js ''AccountId'') (js ''Account.Name'') (js ''Account''))]\<rparr>"

definition caseTask :: "bool \<Rightarrow> Task" where
  "caseTask mapped = \<lparr>taskId = 1, scriptObject = caseObject mapped\<rparr>"

definition caseJob :: "bool \<Rightarrow> (jsstring, (jsstring, jsstring) jsmap) jsmap \<Rightarrow> MigrationJob" where
  "caseJob mapped mapping =
     \<lparr>script = exampleScript [accountObject, caseObject mapped],
      tasks = [\<lparr>taskId = 0, scriptObject = accountObject\<rparr>, caseTask mapped],
      queryTasks = [\<lparr>taskId = 0, scriptObject = accountObject\<rparr>, caseTask mapped],
      csvValuesMapping = mapping\<rparr>"

definition accountFile :: "jsstring \<times> csvfile" where
  "accountFile =
     (js ''data/source/Account_source.csv'',
      [(Str (js ''001''), [(js ''Id'', Str (js ''001'')), (js ''Name'', Str (js ''Acme''))])])"

text \<open>A case file without lookup-id column whose only case names the account \<open>X\<close>, and
  a value mapping for that column which maps \<open>X\<close> to the empty text and the empty text
  to \<open>Unknown\<close>.\<close>

definition mappedFiles :: "(jsstring \<times> csvfile) list" where
  "mappedFiles =
     [accountFile,
      (js ''data/source/Case_source.csv'',
       [(Str (js ''500''), [(js ''Id'', Str (js ''500'')), (js ''Account.Name'', Str (js ''X''))])])]"

definition blankMapping :: "(jsstring, (jsstring, jsstring) jsmap) jsmap" where
  "blankMapping = [(js ''CaseAccount.Name'', [(js ''X'', []), ([], js ''Unknown'')])]"

text \<open>A value mapping for the same column which maps \<open>X\<close> to \<open>Acme\<close>, the name
  of the account in \<open>accountFile\<close>.\<close>

definition acmeMapping :: "(jsstring, (jsstring, jsstring) jsmap) jsmap" where
  "acmeMapping = [(js ''CaseAccount.Name'', [(js ''X'', js ''Acme'')])]"

text \<open>A case file without lookup-id column: one case of a known account, one of an
  unknown account, one without account.\<close>

definition unmappedFiles :: "(jsstring \<times> csvfile) list" where
  "unmappedFiles =
     [accountFile,
      (js ''data/source/Case_source.csv'',
       [(Str (js ''500''), [(js ''Id'', Str (js ''500'')), (js ''Account.Name'', Str (js ''Acme''))]),
        (Str (js ''501''), [(js ''Id'', Str (js ''501'')), (js ''Account.Name'', Str (js ''Nobody''))]),
        (Str (js ''502''), [(js ''Id'', Str (js ''502'')), (js ''Account.Name'', Str [])])])]"

text \<open>The case object with a lookup-id column whose name starts with a blank.\<close>

definition untrimmedCaseTask :: Task where
  "untrimmedCaseTask =
     \<lparr>taskId = 1,
      scriptObject = (caseObject False)
        \<lparr>fieldsInQueryMap :=
           [(js ''Id'', plainField (js ''Id'')),
            (js ''AccountId'', lookupField (js '' AccountId'') (js ''Account.Name'') (js ''Account''))]\<rparr>\<rparr>"

definition untrimmedCaseJob :: MigrationJob where
  "untrimmedCaseJob =
     \<lparr>script = exampleScript [accountObject, scriptObject untrimmedCaseTask],
      tasks = [\<lparr>taskId = 0, scriptObject = accountObject\<rparr>, untrimmedCaseTask],
      queryTasks = [\<lparr>taskId = 0, scriptObject = accountObject\<rparr>, untrimmedCaseTask],
      csvValuesMapping = []\<rparr>"

section \<open>Properties of the task graph builder\<close>

subsection \<open>Array primitives\<close>

lemma indexOf_neg_iff: "indexOf ts t < 0 \<longleftrightarrow> taskId t \<notin> taskId ` set ts"
  by (induction ts) (auto simp: Let_def)

lemma indexOf_found:
  "distinct (map taskId ts) \<Longrightarrow> t \<in> set ts \<Longrightarrow>
     \<exists>k. indexOf ts t = int k \<and> k < length ts \<and> ts ! k = t"
proof (induction ts)
  case Nil
  then show ?case by simp
next
  case (Cons x xs)
  show ?case
  proof (cases "taskId x = taskId t")
    case True
    with Cons.prems have "x = t" by (auto simp: image_iff)
    with True show ?thesis by (intro exI[of _ 0]) simp
  next
    case False
    with Cons.prems have "t \<in> set xs" "distinct (map taskId xs)" by auto
    from Cons.IH[OF this(2) this(1)] obtain k where
      k: "indexOf xs t = int k" "k < length xs" "xs ! k = t" by blast
    with False show ?thesis by (intro exI[of _ "Suc k"]) (simp add: Let_def)
  qed
qed

lemma spliceStart_nat: "k \<le> n \<Longrightarrow> spliceStart (int k) n = k"
  by (simp add: spliceStart_def)

lemma mset_spliceInsert: "mset (spliceInsert s x xs) = add_mset x (mset xs)"
proof -
  have "mset (take i xs @ x # drop i xs) = add_mset x (mset xs)" for i
    by (metis append_take_drop_id mset.simps(2) union_mset_add_mset_right mset_append)
  then show ?thesis by (simp add: spliceInsert_def Let_def)
qed

lemma mset_spliceRemove:
  assumes "k < length xs"
  shows "add_mset (xs ! k) (mset (spliceRemove (int k) xs)) = mset xs"
proof -
  have "xs = take k xs @ xs ! k # drop (Suc k) xs"
    using assms by (simp add: id_take_nth_drop)
  then have "mset xs = mset (take k xs @ xs ! k # drop (Suc k) xs)" by simp
  then show ?thesis using assms by (simp add: spliceRemove_def Let_def spliceStart_nat)
qed

subsection \<open>A pass that moves nothing\<close>

lemma mdStep_fst_mono: "fst st \<Longrightarrow> fst (mdStep temp l r st)"
  by (simp add: mdStep_def Let_def)

lemma fold_mdStep_fst_mono: "fst st \<Longrightarrow> fst (fold (mdStep temp l) rs st)"
  by (induction rs arbitrary: st) (simp_all add: mdStep_fst_mono)

lemma mdStep_unswapped:
  "\<not> fst (mdStep temp l r st) \<Longrightarrow> mdStep temp l r st = st \<and> \<not> isParentMD temp l r"
  by (auto simp: mdStep_def Let_def isParentMD_def split: if_splits)

lemma fold_mdStep_unswapped:
  "\<not> fst (fold (mdStep temp l) rs st) \<Longrightarrow>
     fold (mdStep temp l) rs st = st \<and> (\<forall>r \<in> set rs. \<not> isParentMD temp l r)"
proof (induction rs arbitrary: st)
  case Nil
  then show ?case by simp
next
  case (Cons r rs)
  from Cons.prems have a: "\<not> fst (fold (mdStep temp l) rs (mdStep temp l r st))" by simp
  from Cons.IH[OF a] have b: "fold (mdStep temp l) rs (mdStep temp l r st) = mdStep temp l r st"
    and c: "\<forall>r \<in> set rs. \<not> isParentMD temp l r" by auto
  from a b have "\<not> fst (mdStep temp l r st)" by simp
  from mdStep_unswapped[OF this] b c show ?case by simp
qed

lemma fold_mdInnerLoop_unswapped:
  "\<not> fst (fold (mdInnerLoop temp) ls st) \<Longrightarrow>
     fold (mdInnerLoop temp) ls st = st \<and>
     (\<forall>l \<in> set ls. \<forall>r \<in> {Suc l ..< length temp}. \<not> isParentMD temp l r)"
proof (induction ls arbitrary: st)
  case Nil
  then show ?case by simp
next
  case (Cons l ls)
  from Cons.prems have a: "\<not> fst (fold (mdInnerLoop temp) ls (mdInnerLoop temp l st))" by simp
  from Cons.IH[OF a]
  have b: "fold (mdInnerLoop temp) ls (mdInnerLoop temp l st) = mdInnerLoop temp l st"
    and c: "\<forall>l \<in> set ls. \<forall>r \<in> {Suc l ..< length temp}. \<not> isParentMD temp l r" by auto
  from a b have "\<not> fst (mdInnerLoop temp l st)" by simp
  then have "\<not> fst (fold (mdStep temp l) [Suc l ..< length temp] st)"
    by (simp add: mdInnerLoop_def)
  from fold_mdStep_unswapped[OF this] have "mdInnerLoop temp l st = st"
    and "\<forall>r \<in> {Suc l ..< length temp}. \<not> isParentMD temp l r"
    by (auto simp: mdInnerLoop_def)
  with b c show ?case by simp
qed

lemma putMasterDetailsBefore_unswapped:
  assumes "\<not> fst (putMasterDetailsBefore ts)"
  shows "putMasterDetailsBefore ts = (False, ts) \<and> stableOrder ts"
proof -
  from assms have a: "\<not> fst (fold (mdInnerLoop ts) [0 ..< length ts - 1] (False, ts))"
    by (simp add: putMasterDetailsBefore_def Let_def)
  from fold_mdInnerLoop_unswapped[OF a]
  have b: "putMasterDetailsBefore ts = (False, ts)"
    and c: "\<forall>l \<in> set [0 ..< length ts - 1]. \<forall>r \<in> {Suc l ..< length ts}. \<not> isParentMD ts l r"
    by (simp_all add: putMasterDetailsBefore_def Let_def)
  have "stableOrder ts"
    unfolding stableOrder_def
  proof (intro allI impI)
    fix l r assume "l < r \<and> r < length ts"
    then have "l \<in> set [0 ..< length ts - 1]" "r \<in> {Suc l ..< length ts}" by auto
    with c show "\<not> isParentMD ts l r" by blast
  qed
  with b show ?thesis by simp
qed

lemma relaxLoop_unswapped:
  "\<not> fst (relaxLoop n st) \<Longrightarrow> fst st \<Longrightarrow> stableOrder (snd (relaxLoop n st))"
proof (induction n arbitrary: st)
  case 0
  then show ?case by simp
next
  case (Suc n)
  let ?st' = "putMasterDetailsBefore (snd st)"
  from Suc.prems have eq: "relaxLoop (Suc n) st = relaxLoop n ?st'" by simp
  show ?case
  proof (cases "fst ?st'")
    case True
    with Suc.IH[of ?st'] Suc.prems eq show ?thesis by simp
  next
    case False
    from putMasterDetailsBefore_unswapped[OF False]
    have p: "?st' = (False, snd st)" and s: "stableOrder (snd st)" by simp_all
    have "relaxLoop n (False, snd st) = (False, snd st)" by (cases n) simp_all
    with eq p s show ?thesis by simp
  qed
qed

subsection \<open>The passes permute the tasks\<close>

lemma mdStep_mset:
  assumes "distinct (map taskId temp)" "mset (snd st) = mset temp" "r < length temp"
  shows "mset (snd (mdStep temp l r st)) = mset temp"
proof -
  let ?rt = "temp ! r"
  from assms have d: "distinct (map taskId (snd st))"
    by (metis mset_map mset_eq_imp_distinct_iff)
  from assms have "?rt \<in> set (snd st)"
    by (metis nth_mem mset_eq_setD)
  from indexOf_found[OF d this] obtain k where
    k: "indexOf (snd st) ?rt = int k" "k < length (snd st)" "snd st ! k = ?rt" by blast
  from mset_spliceRemove[OF k(2)] k(3)
  have "add_mset ?rt (mset (spliceRemove (int k) (snd st))) = mset (snd st)" by simp
  with k(1) assms(2) show ?thesis
    by (simp add: mdStep_def Let_def mset_spliceInsert)
qed

lemma fold_mdStep_mset:
  assumes "distinct (map taskId temp)"
  shows "mset (snd st) = mset temp \<Longrightarrow> \<forall>r \<in> set rs. r < length temp \<Longrightarrow>
     mset (snd (fold (mdStep temp l) rs st)) = mset temp"
  by (induction rs arbitrary: st) (simp_all add: mdStep_mset[OF assms])

lemma mdInnerLoop_mset:
  "distinct (map taskId temp) \<Longrightarrow> mset (snd st) = mset temp \<Longrightarrow>
     mset (snd (mdInnerLoop temp l st)) = mset temp"
  unfolding mdInnerLoop_def by (rule fold_mdStep_mset) simp_all

lemma fold_mdInnerLoop_mset:
  "distinct (map taskId temp) \<Longrightarrow> mset (snd st) = mset temp \<Longrightarrow>
     mset (snd (fold (mdInnerLoop temp) ls st)) = mset temp"
  by (induction ls arbitrary: st) (simp_all add: mdInnerLoop_mset)

lemma putMasterDetailsBefore_mset:
  "distinct (map taskId ts) \<Longrightarrow> mset (snd (putMasterDetailsBefore ts)) = mset ts"
  by (simp add: putMasterDetailsBefore_def Let_def fold_mdInnerLoop_mset)

lemma distinct_taskId_mset_cong:
  "mset xs = mset ys \<Longrightarrow> distinct (map taskId ys) \<Longrightarrow> distinct (map taskId xs)"
  by (metis mset_map mset_eq_imp_distinct_iff)

lemma relaxLoop_mset:
  "distinct (map taskId (snd st)) \<Longrightarrow> mset (snd (relaxLoop n st)) = mset (snd st)"
proof (induction n arbitrary: st)
  case 0
  then show ?case by simp
next
  case (Suc n)
  have m: "mset (snd (putMasterDetailsBefore (snd st))) = mset (snd st)"
    using Suc.prems by (rule putMasterDetailsBefore_mset)
  then have "distinct (map taskId (snd (putMasterDetailsBefore (snd st))))"
    using Suc.prems by (rule distinct_taskId_mset_cong)
  from Suc.IH[OF this] m show ?case by simp
qed

subsection \<open>The placement gives every task its own reference\<close>

lemma placeObject_tasks:
  "mset (placedTasks (placeObject C st p)) =
     add_mset \<lparr>taskId = fst p, scriptObject = setProcessAll (snd p)\<rparr> (mset (placedTasks st))"
  by (simp add: placeObject_def Let_def mset_spliceInsert)

lemma foldl_placeObject_ids:
  "mset (map taskId (placedTasks (foldl (placeObject C) st (zip [k ..< k + length os] os)))) =
     mset (map taskId (placedTasks st)) + mset [k ..< k + length os]"
proof (induction os arbitrary: k st)
  case Nil
  then show ?case by simp
next
  case (Cons ob os)
  have "[k ..< k + length (ob # os)] = k # [Suc k ..< Suc k + length os]"
    using upt_conv_Cons[of k "k + length (ob # os)"] by simp
  then show ?case using Cons.IH[of "placeObject C st (k, ob)" "Suc k"]
    by (simp add: placeObject_tasks)
qed

lemma placeTasks_ids:
  "mset (map taskId (placedTasks (placeTasks C obs))) = mset [0 ..< length obs]"
  using foldl_placeObject_ids[of C
      "\<lparr>placedTasks = [], lowerIndexForAnyObjects = 0, lowerIndexForReadonlyObjects = 0\<rparr>" 0 obs]
  by (simp add: placeTasks_def)

lemma placeTasks_distinct: "distinct (map taskId (placedTasks (placeTasks C obs)))"
  by (metis placeTasks_ids distinct_upt mset_eq_imp_distinct_iff)

lemma setupJob_tasks_distinct: "distinct (map taskId (tasks (setupJob C s)))"
proof -
  have "mset (tasks (setupJob C s)) = mset (placedTasks (placeTasks C (objects s)))"
    using relaxLoop_mset[of "(True, placedTasks (placeTasks C (objects s)))" 10]
    by (simp add: setupJob_def Let_def relaxMasterDetails_def placeTasks_distinct)
  then show ?thesis using placeTasks_distinct by (rule distinct_taskId_mset_cong)
qed

subsection \<open>The query order\<close>

lemma fold_append_filter:
  "fold (\<lambda>t q. if P t then q @ [t] else q) ts q0 = q0 @ filter P ts"
  by (induction ts arbitrary: q0) simp_all

lemma fold_push_missing:
  "distinct (map taskId ts) \<Longrightarrow>
   fold (\<lambda>task qs. if indexOf qs task < 0 then qs @ [task] else qs) ts q
     = q @ filter (\<lambda>t. taskId t \<notin> taskId ` set q) ts"
proof (induction ts arbitrary: q)
  case Nil
  then show ?case by simp
next
  case (Cons t ts)
  from Cons.prems have d: "distinct (map taskId ts)" and nt: "taskId t \<notin> taskId ` set ts"
    by auto
  show ?case
  proof (cases "taskId t \<in> taskId ` set q")
    case True
    with Cons.IH[OF d, of q] show ?thesis by (simp add: indexOf_neg_iff)
  next
    case False
    have ne: "\<And>u. u \<in> set ts \<Longrightarrow> taskId u \<noteq> taskId t"
      using nt by (metis imageI)
    have "filter (\<lambda>u. taskId u \<notin> taskId ` set (q @ [t])) ts
            = filter (\<lambda>u. taskId u \<notin> taskId ` set q) ts"
      by (intro filter_cong refl) (auto simp: ne)
    with False Cons.IH[OF d, of "q @ [t]"] show ?thesis by (simp add: indexOf_neg_iff)
  qed
qed

lemma buildQueryTasks_partition:
  assumes "distinct (map taskId ts)"
  shows "buildQueryTasks ts = filter queriedFirst ts @ filter (\<lambda>t. \<not> queriedFirst t) ts"
proof -
  have inj: "inj_on taskId (set ts)" using assms by (simp add: distinct_map)
  have "filter (\<lambda>t. taskId t \<notin> taskId ` set (filter queriedFirst ts)) ts
          = filter (\<lambda>t. \<not> queriedFirst t) ts"
  proof (intro filter_cong refl)
    fix t assume t: "t \<in> set ts"
    show "(taskId t \<notin> taskId ` set (filter queriedFirst ts)) = (\<not> queriedFirst t)"
    proof
      assume "taskId t \<notin> taskId ` set (filter queriedFirst ts)"
      with t show "\<not> queriedFirst t" by auto
    next
      assume n: "\<not> queriedFirst t"
      show "taskId t \<notin> taskId ` set (filter queriedFirst ts)"
      proof
        assume "taskId t \<in> taskId ` set (filter queriedFirst ts)"
        then obtain u where u: "u \<in> set ts" "queriedFirst u" "taskId u = taskId t" by auto
        with inj t have "u = t" by (auto dest: inj_onD)
        with u n show False by simp
      qed
    qed
  qed
  moreover have "fold (\<lambda>task qs. if sourceAllRecords task \<or> isLimitedQuery (scriptObject task)
                       then qs @ [task] else qs) ts [] = filter queriedFirst ts"
    using fold_append_filter[of queriedFirst ts "[]"] by (simp add: queriedFirst_def)
  ultimately show ?thesis
    using fold_push_missing[OF assms, of "filter queriedFirst ts"]
    by (simp add: buildQueryTasks_def Let_def)
qed

subsection \<open>The placement keeps the special tasks in front\<close>

lemma scanIndexToInsert_range:
  "lo \<le> length ts \<Longrightarrow> lo \<le> scanIndexToInsert ts lo n \<and> scanIndexToInsert ts lo n \<le> length ts"
proof -
  have "lo \<le> acc \<Longrightarrow> acc \<le> length ts \<Longrightarrow> \<forall>i \<in> set is. lo \<le> i \<and> i \<le> length ts \<Longrightarrow>
        lo \<le> fold (\<lambda>i acc. if n \<in> set (parentLookupObjects (scriptObject (ts ! i))) then i else acc) is acc
        \<and> fold (\<lambda>i acc. if n \<in> set (parentLookupObjects (scriptObject (ts ! i))) then i else acc) is acc \<le> length ts"
    for "is" acc
    by (induction "is" arbitrary: acc) auto
  from this[of "length ts" "rev [lo ..< length ts]"] show "lo \<le> length ts \<Longrightarrow> ?thesis"
    by (simp add: scanIndexToInsert_def)
qed

lemma spliceInsert_nat: "k \<le> length xs \<Longrightarrow> spliceInsert (int k) x xs = take k xs @ x # drop k xs"
  by (simp add: spliceInsert_def spliceStart_def Let_def)

lemma list_all_insert:
  "list_all P xs \<Longrightarrow> P t \<Longrightarrow> list_all P (take m xs @ t # drop m xs)"
  by (auto simp: list_all_iff dest: in_set_takeD in_set_dropD)

lemma placeObject_zones:
  assumes "placedInZones C st"
  shows "placedInZones C (placeObject C st p)"
proof -
  let ?t = "\<lparr>taskId = fst p, scriptObject = setProcessAll (snd p)\<rparr>"
  let ?r = "lowerIndexForReadonlyObjects st"
  let ?a = "lowerIndexForAnyObjects st"
  let ?ts = "placedTasks st"
  from assms have le: "?r \<le> ?a" "?a \<le> length ?ts"
    and z1: "list_all (isClassification C) (take ?r ?ts)"
    and z2: "list_all (isReadonlyTask C) (drop ?r (take ?a ?ts))"
    and z3: "list_all (isOrdinaryTask C) (drop ?a ?ts)"
    by (simp_all add: placedInZones_def)
  have nm: "name (setProcessAll (snd p)) = name (snd p)"
    "isReadonlyObject (setProcessAll (snd p)) = isReadonlyObject (snd p)"
    by (simp_all add: setProcessAll_def)
  consider (rt) "name (snd p) = RECORD_TYPE_SOBJECT_NAME C"
    | (ro) "name (snd p) \<noteq> RECORD_TYPE_SOBJECT_NAME C" "isReadonlyObject (snd p)"
    | (first) "name (snd p) \<noteq> RECORD_TYPE_SOBJECT_NAME C" "\<not> isReadonlyObject (snd p)"
        "length ?ts = 0"
    | (other) "name (snd p) \<noteq> RECORD_TYPE_SOBJECT_NAME C" "\<not> isReadonlyObject (snd p)"
        "length ?ts \<noteq> 0"
    by blast
  then show ?thesis
  proof cases
    case rt
    then have c: "isClassification C ?t" by (simp add: isClassification_def nm)
    from rt have "placeObject C st p = st\<lparr>placedTasks := ?t # ?ts,
              lowerIndexForAnyObjects := ?a + 1, lowerIndexForReadonlyObjects := ?r + 1\<rparr>"
      by (simp add: placeObject_def Let_def nm)
    with le z1 z2 z3 c show ?thesis by (simp add: placedInZones_def)
  next
    case ro
    then have c: "isReadonlyTask C ?t" by (simp add: isReadonlyTask_def isClassification_def nm)
    from le have rl: "?r \<le> length ?ts" by simp
    from ro have eq: "placeObject C st p = st\<lparr>placedTasks := take ?r ?ts @ ?t # drop ?r ?ts,
              lowerIndexForAnyObjects := ?a + 1\<rparr>"
      by (simp add: placeObject_def Let_def nm spliceInsert_nat[OF rl])
    have t1: "take ?r (take ?r ?ts @ ?t # drop ?r ?ts) = take ?r ?ts" using rl by simp
    have t2: "drop ?r (take (?a + 1) (take ?r ?ts @ ?t # drop ?r ?ts))
                = ?t # drop ?r (take ?a ?ts)"
      using le rl by (simp add: min_def drop_take take_Cons')
    have t3: "drop (?a + 1) (take ?r ?ts @ ?t # drop ?r ?ts) = drop ?a ?ts"
      using le rl by (simp add: min_def drop_Cons')
    show ?thesis
      unfolding eq placedInZones_def using le z1 z2 z3 c t1 t2 t3 by simp
  next
    case first
    then have c: "isOrdinaryTask C ?t" by (simp add: isOrdinaryTask_def isClassification_def nm)
    from first have "placeObject C st p = st\<lparr>placedTasks := ?ts @ [?t]\<rparr>"
      by (simp add: placeObject_def Let_def nm)
    with first le z1 z2 z3 c show ?thesis by (simp add: placedInZones_def)
  next
    case other
    then have c: "isOrdinaryTask C ?t" by (simp add: isOrdinaryTask_def isClassification_def nm)
    let ?k = "scanIndexToInsert ?ts ?a (name (snd p))"
    from scanIndexToInsert_range[OF le(2)] have k: "?a \<le> ?k" "?k \<le> length ?ts" by simp_all
    from other have eq: "placeObject C st p = st\<lparr>placedTasks := take ?k ?ts @ ?t # drop ?k ?ts\<rparr>"
      by (simp add: placeObject_def Let_def nm spliceInsert_nat[OF k(2)])
    have t1: "take ?r (take ?k ?ts @ ?t # drop ?k ?ts) = take ?r ?ts"
      using le k by (simp add: min_def)
    have t2: "take ?a (take ?k ?ts @ ?t # drop ?k ?ts) = take ?a ?ts"
      using le k by (simp add: min_def)
    have t3: "drop ?a (take ?k ?ts @ ?t # drop ?k ?ts)
                = take (?k - ?a) (drop ?a ?ts) @ ?t # drop (?k - ?a) (drop ?a ?ts)"
      using le k by (simp add: drop_take)
    have "list_all (isOrdinaryTask C) (take (?k - ?a) (drop ?a ?ts) @ ?t # drop (?k - ?a) (drop ?a ?ts))"
      using z3 c by (rule list_all_insert)
    with t3 have z3': "list_all (isOrdinaryTask C) (drop ?a (take ?k ?ts @ ?t # drop ?k ?ts))"
      by simp
    show ?thesis
      unfolding eq placedInZones_def using le k z1 z2 z3' t1 t2 by simp
  qed
qed

lemma foldl_placeObject_zones:
  "placedInZones C st \<Longrightarrow> placedInZones C (foldl (placeObject C) st ps)"
  by (induction ps arbitrary: st) (simp_all add: placeObject_zones)

lemma dropWhile_all: "list_all P xs \<Longrightarrow> dropWhile P (xs @ ys) = dropWhile P ys"
  by (induction xs) simp_all

lemma dropWhile_none: "list_all Q ys \<Longrightarrow> (\<And>y. Q y \<Longrightarrow> \<not> P y) \<Longrightarrow> dropWhile P ys = ys"
  by (cases ys) simp_all

lemma zones_specialPrefix:
  assumes "placedInZones C st"
  shows "specialPrefix C (placedTasks st)"
proof -
  let ?r = "lowerIndexForReadonlyObjects st"
  let ?a = "lowerIndexForAnyObjects st"
  let ?ts = "placedTasks st"
  from assms have le: "?r \<le> ?a" "?a \<le> length ?ts"
    and z1: "list_all (isClassification C) (take ?r ?ts)"
    and z2: "list_all (isReadonlyTask C) (drop ?r (take ?a ?ts))"
    and z3: "list_all (isOrdinaryTask C) (drop ?a ?ts)"
    by (simp_all add: placedInZones_def)
  have split: "?ts = take ?r ?ts @ drop ?r (take ?a ?ts) @ drop ?a ?ts"
    using le by (metis append_take_drop_id drop_take take_take min.absorb1 append_assoc)
  have d1: "dropWhile (isClassification C) (drop ?r (take ?a ?ts) @ drop ?a ?ts)
              = drop ?r (take ?a ?ts) @ drop ?a ?ts"
  proof (cases "drop ?r (take ?a ?ts)")
    case Nil
    then show ?thesis
      using dropWhile_none[OF z3, of "isClassification C"] by (simp add: isOrdinaryTask_def)
  next
    case (Cons x xs)
    with z2 have "\<not> isClassification C x" by (simp add: isReadonlyTask_def)
    with Cons show ?thesis by simp
  qed
  have d2: "dropWhile (isReadonlyTask C) (drop ?a ?ts) = drop ?a ?ts"
    using dropWhile_none[OF z3, of "isReadonlyTask C"]
    by (simp add: isOrdinaryTask_def isReadonlyTask_def)
  have "dropWhile (isReadonlyTask C) (dropWhile (isClassification C) ?ts) = drop ?a ?ts"
    using dropWhile_all[OF z1, of "drop ?r (take ?a ?ts) @ drop ?a ?ts"]
      dropWhile_all[OF z2, of "drop ?a ?ts"] d1 d2 split by metis
  with z3 show ?thesis by (simp add: specialPrefix_def)
qed

lemma placement_keeps_prefix: "specialPrefix C (placedTasks (placeTasks C obs))"
proof -
  have "placedInZones C \<lparr>placedTasks = [], lowerIndexForAnyObjects = 0,
                          lowerIndexForReadonlyObjects = 0\<rparr>"
    by (simp add: placedInZones_def)
  then have "placedInZones C (placeTasks C obs)"
    unfolding placeTasks_def by (rule foldl_placeObject_zones)
  then show ?thesis by (rule zones_specialPrefix)
qed

section \<open>The claims about the execution order\<close>

text \<open>
  Claim C1: for every master-detail pair (parent A, child B), A's index in the execution
  order is strictly less than B's once the relaxation passes are over. The code does not
  do this. A step of the pass (lines 156--164) reads the indices of the child and of the
  parent in \<^verbatim>\<open>self.tasks\<close>, removes the parent and inserts it at the index the child
  had before the removal. The comment of line 161 says that this puts the parent before the
  child; it does so only when the parent stood behind the child. When the parent stands
  before the child already, which it does as soon as the same pass has moved it in
  front of another of its children, the removal shifts the child one place to the
  front and the insertion puts the parent behind it.

  \<open>sharedParentObjects\<close> has no cycle: L1 and L2 are children of R, and X looks up L1
  and L2. The placement gives L1, L2, X, R. In every pass the step for (L1, R) gives
  R, L1, L2, X and the step for (L2, R) gives L1, L2, R, X. So every one of the ten
  passes moves a task, and in the execution order the parent R (index 2) follows both of
  its children (indices 0 and 1).
\<close>

theorem C1_shared_parent_left_behind:
  "map sObjectName (placedTasks (placeTasks exampleConstants sharedParentObjects))
     = [js ''L1'', js ''L2'', js ''X'', js ''R''] \<and>
   map sObjectName
     (snd (mdStep (placedTasks (placeTasks exampleConstants sharedParentObjects)) 0 3
             (False, placedTasks (placeTasks exampleConstants sharedParentObjects))))
     = [js ''R'', js ''L1'', js ''L2'', js ''X''] \<and>
   map sObjectName
     (snd (mdStep (placedTasks (placeTasks exampleConstants sharedParentObjects)) 1 3
             (mdStep (placedTasks (placeTasks exampleConstants sharedParentObjects)) 0 3
                (False, placedTasks (placeTasks exampleConstants sharedParentObjects)))))
     = [js ''L1'', js ''L2'', js ''R'', js ''X''] \<and>
   map sObjectName
     (snd (putMasterDetailsBefore (placedTasks (placeTasks exampleConstants sharedParentObjects))))
     = [js ''L1'', js ''L2'', js ''R'', js ''X''] \<and>
   fst (relaxMasterDetails (placedTasks (placeTasks exampleConstants sharedParentObjects))) \<and>
   map sObjectName (tasks (setupJob exampleConstants (exampleScript sharedParentObjects)))
     = [js ''L1'', js ''L2'', js ''R'', js ''X''] \<and>
   isParentMD (tasks (setupJob exampleConstants (exampleScript sharedParentObjects))) 0 2 \<and>
   isParentMD (tasks (setupJob exampleConstants (exampleScript sharedParentObjects))) 1 2 \<and>
   \<not> ((2::nat) < 0) \<and> \<not> ((2::nat) < 1)"
  by code_simp

text \<open>
  Two objects that declare each other as master-detail parent cannot both precede each
  other; the passes have no cycle detection and stop after the tenth. The execution order
  of \<open>cyclicObjects\<close> is B, A, and B declares A as its master-detail parent.
\<close>

lemma cyclic_parents_stay_unordered:
  "map sObjectName (tasks (setupJob exampleConstants (exampleScript cyclicObjects)))
     = [js ''B'', js ''A''] \<and>
   isParentMD (tasks (setupJob exampleConstants (exampleScript cyclicObjects))) 0 1"
  by code_simp

text \<open>What the loop's exit test gives: if the passes end because one of them moved no
  task, no task stands before one of its master-detail parents.\<close>

lemma converged_order_is_stable:
  assumes "\<not> fst (relaxMasterDetails ts)"
  shows "stableOrder (snd (relaxMasterDetails ts))"
  using assms unfolding relaxMasterDetails_def by (intro relaxLoop_unswapped) simp_all

text \<open>
  Claim C4: after the relaxation passes, the read-only entities and the classification
  entity form a prefix of the execution order. The placement builds that prefix (lemma
  \<open>placement_keeps_prefix\<close>; the comments at lines 84--92 say the two kinds are always at
  the beginning of the chain, and the scan of lines 101--112 never goes below
  \<^verbatim>\<open>lowerIndexForAnyObjects\<close>), but the relaxation pass moves a master-detail parent
  before its child wherever the child stands. For \<open>readonlyChildObjects\<close> the placement
  gives RecordType, RO, P and the execution order is RecordType, P, RO: the object P,
  which is not read-only, stands before the read-only RO.
\<close>

theorem C4_prefix_broken_by_relaxation:
  "map sObjectName (placedTasks (placeTasks exampleConstants readonlyChildObjects))
     = [js ''RecordType'', js ''RO'', js ''P''] \<and>
   map sObjectName (tasks (setupJob exampleConstants (exampleScript readonlyChildObjects)))
     = [js ''RecordType'', js ''P'', js ''RO''] \<and>
   map (\<lambda>t. isReadonlyObject (scriptObject t))
       (tasks (setupJob exampleConstants (exampleScript readonlyChildObjects)))
     = [False, False, True] \<and>
   \<not> specialPrefix exampleConstants
       (tasks (setupJob exampleConstants (exampleScript readonlyChildObjects)))"
  by code_simp

text \<open>
  Claim C8: the query order consists of the tasks flagged process-all or limited-query,
  in execution order, followed by all remaining tasks, in execution order; it holds
  every task of the execution order exactly once (it is a permutation of the execution
  order, which has no task twice).
\<close>

theorem C8_query_order_partition:
  "queryTasks (setupJob C s) =
     filter queriedFirst (tasks (setupJob C s)) @
     filter (\<lambda>t. \<not> queriedFirst t) (tasks (setupJob C s))
   \<and> mset (queryTasks (setupJob C s)) = mset (tasks (setupJob C s))
   \<and> distinct (map taskId (queryTasks (setupJob C s)))"
proof -
  let ?ts = "tasks (setupJob C s)"
  have d: "distinct (map taskId ?ts)" by (rule setupJob_tasks_distinct)
  have q: "queryTasks (setupJob C s) = buildQueryTasks ?ts"
    by (simp add: setupJob_def Let_def)
  have p: "buildQueryTasks ?ts = filter queriedFirst ?ts @ filter (\<lambda>t. \<not> queriedFirst t) ?ts"
    using d by (rule buildQueryTasks_partition)
  have m: "mset (filter queriedFirst ?ts @ filter (\<lambda>t. \<not> queriedFirst t) ?ts) = mset ?ts"
    by simp
  have "distinct (map taskId (filter queriedFirst ?ts @ filter (\<lambda>t. \<not> queriedFirst t) ?ts))"
    using d m by (metis distinct_taskId_mset_cong)
  with q p m show ?thesis by simp
qed

text \<open>The query order of \<open>readonlyChildObjects\<close> with P queried in full.\<close>

theorem C8_query_order_witness:
  "map sObjectName (queryTasks (setupJob exampleConstants
      (exampleScript [plainObject (js ''RecordType'') False [] [],
                      plainObject (js ''RO'') True [js ''P''] [js ''P''],
                      (plainObject (js ''P'') False [] [])\<lparr>allRecords := True\<rparr>])))
     = [js ''P'', js ''RecordType'', js ''RO'']"
proof -
  let ?s = "exampleScript [plainObject (js ''RecordType'') False [] [],
                      plainObject (js ''RO'') True [js ''P''] [js ''P''],
                      (plainObject (js ''P'') False [] [])\<lparr>allRecords := True\<rparr>]"
  have t: "map sObjectName (filter queriedFirst (tasks (setupJob exampleConstants ?s)) @
     filter (\<lambda>t. \<not> queriedFirst t) (tasks (setupJob exampleConstants ?s)))
       = [js ''P'', js ''RecordType'', js ''RO'']"
    by code_simp
  show ?thesis
    using C8_query_order_partition[of exampleConstants ?s] t by simp
qed

section \<open>The claims about the identifier index\<close>

lemma map_of_Map_set: "map_of (Map_set k v m) = (map_of m)(k \<mapsto> v)"
  by (induction m) (auto simp: fun_eq_iff)

lemma Map_set_absent: "\<not> Map_has m k \<Longrightarrow> Map_set k v m = m @ [(k, v)]"
  by (induction m) (auto simp: Map_has_def split: if_splits)

lemma setExternalIdMap_snoc:
  "setExternalIdMap env self (rs @ [r]) ext idm =
     setExternalIdMapStep env self r (setExternalIdMap env self rs ext idm)"
  by (simp add: setExternalIdMap_def)

lemma setExternalIdMapStep_id_index:
  assumes "setExternalIdMapStep env self r (ext, idm, n) = (ext', idm', n')"
  shows "(truthy (getProp r (js ''Id'')) \<and> \<not> Map_has idm (getProp r (js ''Id''))
            \<longrightarrow> idm' = idm @ [(getProp r (js ''Id''), r)] \<and> n' = Suc n)
       \<and> (\<not> (truthy (getProp r (js ''Id'')) \<and> \<not> Map_has idm (getProp r (js ''Id'')))
            \<longrightarrow> idm' = idm \<and> n' = n)"
  using assms by (auto simp: setExternalIdMapStep_def Let_def Map_set_absent split: if_splits)

lemma newWhenApplied_snoc_old:
  "i < length rs \<Longrightarrow>
     newWhenApplied env self (rs @ [r]) ext idm i = newWhenApplied env self rs ext idm i"
  by (simp add: newWhenApplied_def nth_append)

lemma newWhenApplied_snoc_last:
  "newWhenApplied env self (rs @ [r]) ext idm (length rs) =
     (truthy (getProp r (js ''Id'')) \<and>
      \<not> Map_has (fst (snd (setExternalIdMap env self rs ext idm))) (getProp r (js ''Id'')))"
  by (simp add: newWhenApplied_def)

lemma new_set_snoc:
  "{i. i < length (rs @ [r]) \<and> newWhenApplied env self (rs @ [r]) ext idm i} =
     {i. i < length rs \<and> newWhenApplied env self rs ext idm i} \<union>
     (if newWhenApplied env self (rs @ [r]) ext idm (length rs) then {length rs} else {})"
  using newWhenApplied_snoc_old[of _ rs env self r ext idm]
  by (auto simp: less_Suc_eq)

lemma setExternalIdMap_id_index:
  "\<exists>added. fst (snd (setExternalIdMap env self rs ext idm)) = idm @ added
     \<and> length added = snd (snd (setExternalIdMap env self rs ext idm))
     \<and> snd (snd (setExternalIdMap env self rs ext idm))
         = card {i. i < length rs \<and> newWhenApplied env self rs ext idm i}"
proof (induction rs rule: rev_induct)
  case Nil
  show ?case by (simp add: setExternalIdMap_def)
next
  case (snoc r rs)
  obtain e m n where st: "setExternalIdMap env self rs ext idm = (e, m, n)"
    by (cases "setExternalIdMap env self rs ext idm") auto
  obtain e' m' n' where st': "setExternalIdMapStep env self r (e, m, n) = (e', m', n')"
    by (cases "setExternalIdMapStep env self r (e, m, n)") auto
  from snoc.IH st obtain added where a: "m = idm @ added" "length added = n"
    and c: "n = card {i. i < length rs \<and> newWhenApplied env self rs ext idm i}" by auto
  have fin: "finite {i. i < length rs \<and> newWhenApplied env self rs ext idm i}" by simp
  have notin: "length rs \<notin> {i. i < length rs \<and> newWhenApplied env self rs ext idm i}" by simp
  show ?case
  proof (cases "truthy (getProp r (js ''Id'')) \<and> \<not> Map_has m (getProp r (js ''Id''))")
    case True
    with setExternalIdMapStep_id_index[OF st']
    have m': "m' = m @ [(getProp r (js ''Id''), r)]" and n': "n' = Suc n" by auto
    have nw: "newWhenApplied env self (rs @ [r]) ext idm (length rs)"
      using True st by (simp add: newWhenApplied_snoc_last)
    have "card {i. i < length (rs @ [r]) \<and> newWhenApplied env self (rs @ [r]) ext idm i} = Suc n"
      unfolding new_set_snoc using nw c fin notin by simp
    with m' n' a st st' show ?thesis
      by (intro exI[of _ "added @ [(getProp r (js ''Id''), r)]"]) (simp add: setExternalIdMap_snoc)
  next
    case False
    with setExternalIdMapStep_id_index[OF st']
    have m': "m' = m" and n': "n' = n" by auto
    have nw: "\<not> newWhenApplied env self (rs @ [r]) ext idm (length rs)"
      using False st by (simp add: newWhenApplied_snoc_last)
    have "card {i. i < length (rs @ [r]) \<and> newWhenApplied env self (rs @ [r]) ext idm i} = n"
      unfolding new_set_snoc using nw c by simp
    with m' n' a st st' show ?thesis
      by (intro exI[of _ added]) (simp add: setExternalIdMap_snoc)
  qed
qed

lemma firstWithId_snoc:
  "firstWithId k (rs @ [r]) =
     (case firstWithId k rs of Some x \<Rightarrow> Some x
      | None \<Rightarrow> if getProp r (js ''Id'') = k then Some r else None)"
  by (induction rs) (auto simp: firstWithId_def)

text \<open>The identifier index after any sequence of records: an identifier it held keeps its
  record, a new identifier gets the first record that carries it.\<close>

lemma setExternalIdMap_first_kept:
  "Map_get (fst (snd (setExternalIdMap env self rs ext idm))) k =
     (if Map_has idm k then Map_get idm k
      else if truthy k then firstWithId k rs else None)"
proof (induction rs rule: rev_induct)
  case Nil
  show ?case by (auto simp: setExternalIdMap_def firstWithId_def Map_has_def Map_get_def)
next
  case (snoc r rs)
  obtain e m n where st: "setExternalIdMap env self rs ext idm = (e, m, n)"
    by (cases "setExternalIdMap env self rs ext idm") auto
  obtain e' m' n' where st': "setExternalIdMapStep env self r (e, m, n) = (e', m', n')"
    by (cases "setExternalIdMapStep env self r (e, m, n)") auto
  from snoc st have ih: "Map_get m k =
     (if Map_has idm k then Map_get idm k
      else if truthy k then firstWithId k rs else None)" by simp
  show ?case
  proof (cases "truthy (getProp r (js ''Id'')) \<and> \<not> Map_has m (getProp r (js ''Id''))")
    case True
    with setExternalIdMapStep_id_index[OF st']
    have m': "m' = m @ [(getProp r (js ''Id''), r)]" by auto
    from True ih show ?thesis
      using st st' m'
      by (auto simp: setExternalIdMap_snoc firstWithId_snoc Map_has_def
            Map_get_def map_add_def split: option.splits if_splits)
  next
    case False
    with setExternalIdMapStep_id_index[OF st'] have m': "m' = m" by auto
    from False ih show ?thesis
      using st st' m'
      by (auto simp: setExternalIdMap_snoc firstWithId_snoc Map_has_def
            Map_get_def split: option.splits if_splits)
  qed
qed

lemma firstWithId_None:
  "firstWithId k rs = None \<longleftrightarrow> k \<notin> (\<lambda>r. getProp r (js ''Id'')) ` set rs"
  by (auto simp: firstWithId_def find_None_iff)

lemma setExternalIdMap_has:
  "Map_has (fst (snd (setExternalIdMap env self rs ext idm))) k \<longleftrightarrow>
     Map_has idm k \<or> (truthy k \<and> k \<in> (\<lambda>r. getProp r (js ''Id'')) ` set rs)"
  using setExternalIdMap_first_kept[of env self rs ext idm k] firstWithId_None[of k rs]
  by (auto simp: Map_has_def Map_get_def split: if_splits)

text \<open>The count is the number of distinct new identifiers.\<close>

lemma setExternalIdMap_count:
  "snd (snd (setExternalIdMap env self rs ext idm)) =
     card {k. truthy k \<and> \<not> Map_has idm k \<and> k \<in> (\<lambda>r. getProp r (js ''Id'')) ` set rs}"
proof (induction rs rule: rev_induct)
  case Nil
  show ?case by (simp add: setExternalIdMap_def)
next
  case (snoc r rs)
  let ?K = "\<lambda>rs. {k. truthy k \<and> \<not> Map_has idm k \<and> k \<in> (\<lambda>r. getProp r (js ''Id'')) ` set rs}"
  obtain e m n where st: "setExternalIdMap env self rs ext idm = (e, m, n)"
    by (cases "setExternalIdMap env self rs ext idm") auto
  obtain e' m' n' where st': "setExternalIdMapStep env self r (e, m, n) = (e', m', n')"
    by (cases "setExternalIdMapStep env self r (e, m, n)") auto
  from snoc st have ih: "n = card (?K rs)" by simp
  have fin: "finite (?K rs)" by simp
  have has: "Map_has m k \<longleftrightarrow>
     Map_has idm k \<or> (truthy k \<and> k \<in> (\<lambda>r. getProp r (js ''Id'')) ` set rs)" for k
    using setExternalIdMap_has[of env self rs ext idm k] st by simp
  show ?case
  proof (cases "truthy (getProp r (js ''Id'')) \<and> \<not> Map_has m (getProp r (js ''Id''))")
    case True
    with setExternalIdMapStep_id_index[OF st'] have n': "n' = Suc n" by auto
    from True has have "?K (rs @ [r]) = insert (getProp r (js ''Id'')) (?K rs)"
      and "getProp r (js ''Id'') \<notin> ?K rs" by auto
    with fin have "card (?K (rs @ [r])) = Suc (card (?K rs))" by simp
    with n' ih st st' show ?thesis by (simp add: setExternalIdMap_snoc)
  next
    case False
    with setExternalIdMapStep_id_index[OF st'] have n': "n' = n" by auto
    from False has have "?K (rs @ [r]) = ?K rs" by auto
    with n' ih st st' show ?thesis by (simp add: setExternalIdMap_snoc)
  qed
qed

text \<open>
  Claim C2: applying the index update to any sequence of fetched records never shrinks
  the identifier index (its entries stay where they are and the size grows by the
  returned count), and never replaces a record: after the call an identifier the index
  held maps to the record it had, and any other identifier maps to the first record of
  the sequence that carries it (to nothing if no record does, or if it is empty). The
  returned count is the number of records whose identifier the index did not hold when
  the record was applied; a record that repeats the identifier of an earlier record of
  the sequence is a rediscovery and does not count, so the count is also the number of
  distinct non-empty identifiers of the sequence that the index did not hold before.
\<close>

theorem C2_identifier_index_first_write_wins:
  assumes "setExternalIdMap env self records ext idm = (ext', idm', newRecordsCount)"
  shows "length idm \<le> length idm'
       \<and> take (length idm) idm' = idm
       \<and> (\<forall>k. Map_get idm' k =
                (if Map_has idm k then Map_get idm k
                 else if truthy k then firstWithId k records else None))
       \<and> length idm' = length idm + newRecordsCount
       \<and> newRecordsCount
           = card {i. i < length records \<and> newWhenApplied env self records ext idm i}
       \<and> newRecordsCount
           = card {k. truthy k \<and> \<not> Map_has idm k
                      \<and> k \<in> (\<lambda>r. getProp r (js ''Id'')) ` set records}"
proof -
  from setExternalIdMap_id_index[of env self records ext idm] assms
  obtain added where a: "idm' = idm @ added" "length added = newRecordsCount"
    and c: "newRecordsCount
           = card {i. i < length records \<and> newWhenApplied env self records ext idm i}"
    by auto
  from setExternalIdMap_first_kept[of env self records ext idm] assms
  have "\<forall>k. Map_get idm' k =
                (if Map_has idm k then Map_get idm k
                 else if truthy k then firstWithId k records else None)" by simp
  moreover from setExternalIdMap_count[of env self records ext idm] assms
  have "newRecordsCount
           = card {k. truthy k \<and> \<not> Map_has idm k
                      \<and> k \<in> (\<lambda>r. getProp r (js ''Id'')) ` set records}" by simp
  ultimately show ?thesis using a c by simp
qed

text \<open>Claim C2 at \<open>mergedAccounts\<close>, applied to \<open>knownAccounts\<close>: the index keeps the old
  record of \<open>002\<close>, gets the first of the two records of \<open>001\<close> and the record of
  \<open>003\<close>, and the count is 2.\<close>

theorem C2_identifier_index_witness:
  "fst (snd (setExternalIdMap plainCollaborators accountTask mergedAccounts [] knownAccounts))
     = [(Str (js ''002''), [(js ''Id'', Str (js ''002'')), (js ''Name'', Str (js ''Old''))]),
        (Str (js ''001''), [(js ''Id'', Str (js ''001'')), (js ''Name'', Str (js ''Acme''))]),
        (Str (js ''003''), [(js ''Id'', Str (js ''003'')), (js ''Name'', Str (js ''Beta''))])]
   \<and> snd (snd (setExternalIdMap plainCollaborators accountTask mergedAccounts []
                  knownAccounts)) = 2
   \<and> Map_get (fst (snd (setExternalIdMap plainCollaborators accountTask mergedAccounts []
                           knownAccounts))) (Str (js ''001''))
       = Some [(js ''Id'', Str (js ''001'')), (js ''Name'', Str (js ''Acme''))]
   \<and> Map_get (fst (snd (setExternalIdMap plainCollaborators accountTask mergedAccounts []
                           knownAccounts))) (Str (js ''002''))
       = Some [(js ''Id'', Str (js ''002'')), (js ''Name'', Str (js ''Old''))]
   \<and> card {i. i < length mergedAccounts \<and>
              newWhenApplied plainCollaborators accountTask mergedAccounts [] knownAccounts i}
       = 2"
proof -
  obtain e m n where
    s: "setExternalIdMap plainCollaborators accountTask mergedAccounts [] knownAccounts
          = (e, m, n)"
    by (cases "setExternalIdMap plainCollaborators accountTask mergedAccounts [] knownAccounts")
       auto
  have m: "fst (snd (setExternalIdMap plainCollaborators accountTask mergedAccounts []
                       knownAccounts))
     = [(Str (js ''002''), [(js ''Id'', Str (js ''002'')), (js ''Name'', Str (js ''Old''))]),
        (Str (js ''001''), [(js ''Id'', Str (js ''001'')), (js ''Name'', Str (js ''Acme''))]),
        (Str (js ''003''), [(js ''Id'', Str (js ''003'')), (js ''Name'', Str (js ''Beta''))])]"
    by code_simp
  have n: "snd (snd (setExternalIdMap plainCollaborators accountTask mergedAccounts []
                       knownAccounts)) = 2"
    by code_simp
  have new: "\<not> Map_has knownAccounts (Str (js ''001''))" "truthy (Str (js ''001''))"
    "firstWithId (Str (js ''001'')) mergedAccounts
       = Some [(js ''Id'', Str (js ''001'')), (js ''Name'', Str (js ''Acme''))]"
    by code_simp+
  have old: "Map_has knownAccounts (Str (js ''002''))"
    "Map_get knownAccounts (Str (js ''002''))
       = Some [(js ''Id'', Str (js ''002'')), (js ''Name'', Str (js ''Old''))]"
    by code_simp+
  from C2_identifier_index_first_write_wins[OF s]
  have g: "Map_get m k =
             (if Map_has knownAccounts k then Map_get knownAccounts k
              else if truthy k then firstWithId k mergedAccounts else None)"
    and c: "n = card {i. i < length mergedAccounts \<and>
              newWhenApplied plainCollaborators accountTask mergedAccounts [] knownAccounts i}"
    for k by simp_all
  from g[of "Str (js ''001'')"] g[of "Str (js ''002'')"] new old c m n s
  show ?thesis by simp
qed

lemma setExternalIdMapStep_ext:
  assumes "setExternalIdMapStep env self r (ext, idm, n) = (ext', idm', n')"
  shows "ext' = (if truthy (externalIdValue env self r)
                 then Map_set (externalIdValue env self r) (getProp r (js ''Id'')) ext else ext)"
  using assms by (auto simp: setExternalIdMapStep_def externalIdValue_def Let_def split: if_splits)

lemma lastYielding_snoc:
  "lastYielding env self v (rs @ [r]) =
     (if externalIdValue env self r = v then Some r else lastYielding env self v rs)"
  by (simp add: lastYielding_def)

text \<open>After any sequence of records, the external-id index maps a value to the identifier
  of the last record that yields it.\<close>

lemma setExternalIdMap_ext:
  "truthy v \<Longrightarrow>
   Map_get (fst (setExternalIdMap env self rs ext idm)) v =
     (case lastYielding env self v rs of
        None \<Rightarrow> Map_get ext v | Some r \<Rightarrow> Some (getProp r (js ''Id'')))"
proof (induction rs rule: rev_induct)
  case Nil
  then show ?case by (simp add: setExternalIdMap_def lastYielding_def)
next
  case (snoc r rs)
  obtain e m n where st: "setExternalIdMap env self rs ext idm = (e, m, n)"
    by (cases "setExternalIdMap env self rs ext idm") auto
  obtain e' m' n' where st': "setExternalIdMapStep env self r (e, m, n) = (e', m', n')"
    by (cases "setExternalIdMapStep env self r (e, m, n)") auto
  from setExternalIdMapStep_ext[OF st']
  have e': "e' = (if truthy (externalIdValue env self r)
                 then Map_set (externalIdValue env self r) (getProp r (js ''Id'')) e else e)" .
  from snoc st have ih: "Map_get e v =
     (case lastYielding env self v rs of
        None \<Rightarrow> Map_get ext v | Some r \<Rightarrow> Some (getProp r (js ''Id'')))" by simp
  show ?case
    using snoc.prems ih e' st st'
    by (auto simp: setExternalIdMap_snoc lastYielding_snoc Map_get_def map_of_Map_set)
qed

text \<open>A value that is empty keeps what the index held for it.\<close>

lemma setExternalIdMap_ext_other:
  "\<not> truthy v \<Longrightarrow>
     Map_get (fst (setExternalIdMap env self rs ext idm)) v = Map_get ext v"
proof (induction rs rule: rev_induct)
  case Nil
  show ?case by (simp add: setExternalIdMap_def)
next
  case (snoc r rs)
  obtain e m n where st: "setExternalIdMap env self rs ext idm = (e, m, n)"
    by (cases "setExternalIdMap env self rs ext idm") auto
  obtain e' m' n' where st': "setExternalIdMapStep env self r (e, m, n) = (e', m', n')"
    by (cases "setExternalIdMapStep env self r (e, m, n)") auto
  from snoc st have ih: "Map_get e v = Map_get ext v" by simp
  show ?case
    using snoc.prems ih st st' setExternalIdMapStep_ext[OF st']
    by (auto simp: setExternalIdMap_snoc Map_get_def map_of_Map_set)
qed

text \<open>The records that yield an empty value can be left out of the sequence.\<close>

lemma setExternalIdMap_ext_filter:
  "fst (setExternalIdMap env self rs ext idm) =
     fst (setExternalIdMap env self
            (filter (\<lambda>r. truthy (externalIdValue env self r)) rs) ext idm)"
proof (induction rs rule: rev_induct)
  case Nil
  show ?case by simp
next
  case (snoc r rs)
  let ?f = "filter (\<lambda>r. truthy (externalIdValue env self r))"
  obtain e m n where st: "setExternalIdMap env self rs ext idm = (e, m, n)"
    by (cases "setExternalIdMap env self rs ext idm") auto
  obtain e' m' n' where st': "setExternalIdMapStep env self r (e, m, n) = (e', m', n')"
    by (cases "setExternalIdMapStep env self r (e, m, n)") auto
  obtain e2 m2 n2 where su: "setExternalIdMap env self (?f rs) ext idm = (e2, m2, n2)"
    by (cases "setExternalIdMap env self (?f rs) ext idm") auto
  obtain e3 m3 n3 where su': "setExternalIdMapStep env self r (e2, m2, n2) = (e3, m3, n3)"
    by (cases "setExternalIdMapStep env self r (e2, m2, n2)") auto
  from snoc st su have ee: "e = e2" by simp
  show ?case
    using st st' su su' ee setExternalIdMapStep_ext[OF st'] setExternalIdMapStep_ext[OF su']
    by (simp add: setExternalIdMap_snoc)
qed

text \<open>
  Claim C3: after any sequence of fetched records has been applied in fetch order, the
  external-id index maps every non-empty value that a record of the sequence yields to
  the identifier of the last record yielding it, whatever records come before, between
  and after the records that share the value, and keeps what it held for every other
  value. Records that yield an empty value leave the index unchanged: the index is the
  one that the sequence without these records gives.
\<close>

theorem C3_external_id_index_last_write_wins:
  assumes "setExternalIdMap env self records ext idm = (ext', idm', newRecordsCount)"
  shows "(\<forall>v. truthy v \<longrightarrow>
             Map_get ext' v =
               (case lastYielding env self v records of
                  None \<Rightarrow> Map_get ext v
                | Some r \<Rightarrow> Some (getProp r (js ''Id''))))
       \<and> (\<forall>v. \<not> truthy v \<longrightarrow> Map_get ext' v = Map_get ext v)
       \<and> ext' = fst (setExternalIdMap env self
                       (filter (\<lambda>r. truthy (externalIdValue env self r)) records) ext idm)"
proof -
  have one: "Map_get ext' v =
               (case lastYielding env self v records of
                  None \<Rightarrow> Map_get ext v
                | Some r \<Rightarrow> Some (getProp r (js ''Id'')))" if "truthy v" for v
    using setExternalIdMap_ext[OF that, of env self records ext idm] assms by simp
  have two: "Map_get ext' v = Map_get ext v" if "\<not> truthy v" for v
    using setExternalIdMap_ext_other[OF that, of env self records ext idm] assms by simp
  have three: "ext' = fst (setExternalIdMap env self
                       (filter (\<lambda>r. truthy (externalIdValue env self r)) records) ext idm)"
    using setExternalIdMap_ext_filter[of env self records ext idm] assms by simp
  from one two three show ?thesis by blast
qed

text \<open>Claim C3 at \<open>sharedNameAccounts\<close>, applied to \<open>knownExternalIds\<close>: \<open>Acme\<close> maps to
  \<open>002\<close>, the later of its two records, although another record follows; \<open>Beta\<close> maps
  to \<open>003\<close>; \<open>Gamma\<close> keeps \<open>009\<close>; the record without name changes nothing.\<close>

theorem C3_external_id_index_witness:
  "Map_get (fst (setExternalIdMap plainCollaborators accountTask sharedNameAccounts
                   knownExternalIds [])) (Str (js ''Acme'')) = Some (Str (js ''002''))
   \<and> Map_get (fst (setExternalIdMap plainCollaborators accountTask sharedNameAccounts
                       knownExternalIds [])) (Str (js ''Beta'')) = Some (Str (js ''003''))
   \<and> Map_get (fst (setExternalIdMap plainCollaborators accountTask sharedNameAccounts
                       knownExternalIds [])) (Str (js ''Gamma'')) = Some (Str (js ''009''))
   \<and> Map_get (fst (setExternalIdMap plainCollaborators accountTask sharedNameAccounts
                       knownExternalIds [])) (Str []) = None
   \<and> fst (setExternalIdMap plainCollaborators accountTask sharedNameAccounts
            knownExternalIds [])
       = fst (setExternalIdMap plainCollaborators accountTask
                [sharedNameAccounts ! 0, sharedNameAccounts ! 1, sharedNameAccounts ! 3]
                knownExternalIds [])"
proof -
  obtain e m n where
    s: "setExternalIdMap plainCollaborators accountTask sharedNameAccounts knownExternalIds []
          = (e, m, n)"
    by (cases "setExternalIdMap plainCollaborators accountTask sharedNameAccounts
                 knownExternalIds []") auto
  have t: "truthy (Str (js ''Acme''))" "truthy (Str (js ''Beta''))" "truthy (Str (js ''Gamma''))"
    "\<not> truthy (Str [])"
    by code_simp+
  have l: "lastYielding plainCollaborators accountTask (Str (js ''Acme'')) sharedNameAccounts
             = Some [(js ''Id'', Str (js ''002'')), (js ''Name'', Str (js ''Acme''))]"
    "lastYielding plainCollaborators accountTask (Str (js ''Beta'')) sharedNameAccounts
             = Some [(js ''Id'', Str (js ''003'')), (js ''Name'', Str (js ''Beta''))]"
    "lastYielding plainCollaborators accountTask (Str (js ''Gamma'')) sharedNameAccounts = None"
    by code_simp+
  have g: "getProp [(js ''Id'', Str (js ''002'')), (js ''Name'', Str (js ''Acme''))] (js ''Id'')
             = Str (js ''002'')"
    "getProp [(js ''Id'', Str (js ''003'')), (js ''Name'', Str (js ''Beta''))] (js ''Id'')
             = Str (js ''003'')"
    "Map_get knownExternalIds (Str (js ''Gamma'')) = Some (Str (js ''009''))"
    "Map_get knownExternalIds (Str []) = None"
    by code_simp+
  have f: "filter (\<lambda>r. truthy (externalIdValue plainCollaborators accountTask r))
             sharedNameAccounts
           = [sharedNameAccounts ! 0, sharedNameAccounts ! 1, sharedNameAccounts ! 3]"
    by code_simp
  from C3_external_id_index_last_write_wins[OF s]
  have a: "truthy v \<Longrightarrow> Map_get e v =
               (case lastYielding plainCollaborators accountTask v sharedNameAccounts of
                  None \<Rightarrow> Map_get knownExternalIds v
                | Some r \<Rightarrow> Some (getProp r (js ''Id'')))"
    and b: "\<not> truthy v \<Longrightarrow> Map_get e v = Map_get knownExternalIds v"
    and c: "e = fst (setExternalIdMap plainCollaborators accountTask
                       (filter (\<lambda>r. truthy (externalIdValue plainCollaborators accountTask r))
                          sharedNameAccounts) knownExternalIds [])"
    for v by blast+
  from a[OF t(1)] a[OF t(2)] a[OF t(3)] b[OF t(4)] c l g f s
  show ?thesis by simp
qed

section \<open>The claims about retrieval, the engine selector and empty files\<close>

text \<open>
  Claim C10: for a task whose operation is Delete, \<^verbatim>\<open>retrieveRecords\<close> returns at once
  in every query mode and for both values of \<^verbatim>\<open>reversed\<close>: the state it returns is the
  state it was given, so no query was sent and the identifier and external-id indices of
  both endpoints, of this and of every other task, are unchanged.
\<close>

theorem C10_delete_retrieves_nothing:
  assumes "operation (scriptObject self) = Delete"
  shows "retrieveRecords C env job self queryMode reversed st = Inr st"
  using assms by (simp add: retrieveRecords_def)

theorem C10_delete_retrieves_nothing_witness:
  "operation (scriptObject deleteTask) = Delete
   \<and> retrieveRecords exampleConstants plainCollaborators deleteJob deleteTask forwards False
       initialRetrieveState = Inr initialRetrieveState
   \<and> retrieveRecords exampleConstants plainCollaborators deleteJob deleteTask backwards False
       initialRetrieveState = Inr initialRetrieveState
   \<and> retrieveRecords exampleConstants plainCollaborators deleteJob deleteTask forwards True
       initialRetrieveState = Inr initialRetrieveState
   \<and> retrieveRecords exampleConstants plainCollaborators deleteJob deleteTask target False
       initialRetrieveState = Inr initialRetrieveState"
proof -
  have d: "operation (scriptObject deleteTask) = Delete" by code_simp
  show ?thesis
    using d C10_delete_retrieves_nothing[OF d, of exampleConstants plainCollaborators deleteJob _ _
        initialRetrieveState]
    by simp
qed

text \<open>
  Claim C9: \<^verbatim>\<open>createApiEngine\<close> chooses a bulk engine exactly when the record count
  strictly exceeds the bulk threshold and the job is not set to always use the REST
  engine, version 2 when the configured version number is 2 and version 1 otherwise; in
  every other case it chooses the REST engine.
\<close>

theorem C9_engine_selection:
  "(n > bulkThreshold s \<and> \<not> alwaysUseRestApiToUpdateRecords s \<and> bulkApiVersionNumber s = 2
      \<longrightarrow> engineKind (createApiEngine C s self org op n updateRecordId) = BulkV2)
   \<and> (n > bulkThreshold s \<and> \<not> alwaysUseRestApiToUpdateRecords s \<and> bulkApiVersionNumber s \<noteq> 2
      \<longrightarrow> engineKind (createApiEngine C s self org op n updateRecordId) = BulkV1)
   \<and> (n \<le> bulkThreshold s \<or> alwaysUseRestApiToUpdateRecords s
      \<longrightarrow> engineKind (createApiEngine C s self org op n updateRecordId) = Rest)"
  by (auto simp: createApiEngine_def)

text \<open>Claim C9 at a job with threshold 200 and bulk version 2: 201 records go to the bulk
  engine of version 2, 200 records to the REST engine; with bulk version 1 configured, 201
  records go to the bulk engine of version 1; with the REST engine forced, 201 records go
  to the REST engine.\<close>

theorem C9_engine_selection_witness:
  "engineKind (createApiEngine exampleConstants (exampleScript []) accountTask
      (targetOrg (exampleScript [])) Insert 201 True) = BulkV2
   \<and> engineKind (createApiEngine exampleConstants (exampleScript []) accountTask
      (targetOrg (exampleScript [])) Insert 200 True) = Rest
   \<and> engineKind (createApiEngine exampleConstants
      ((exampleScript [])\<lparr>bulkApiVersionNumber := 1\<rparr>) accountTask
      (targetOrg (exampleScript [])) Insert 201 True) = BulkV1
   \<and> engineKind (createApiEngine exampleConstants
      ((exampleScript [])\<lparr>alwaysUseRestApiToUpdateRecords := True\<rparr>) accountTask
      (targetOrg (exampleScript [])) Insert 201 True) = Rest"
proof -
  let ?s = "exampleScript []"
  have a: "201 > bulkThreshold ?s \<and> \<not> alwaysUseRestApiToUpdateRecords ?s
             \<and> bulkApiVersionNumber ?s = 2"
    by code_simp
  have b: "200 \<le> bulkThreshold ?s \<or> alwaysUseRestApiToUpdateRecords ?s"
    by code_simp
  have c: "201 > bulkThreshold (?s\<lparr>bulkApiVersionNumber := 1\<rparr>)
             \<and> \<not> alwaysUseRestApiToUpdateRecords (?s\<lparr>bulkApiVersionNumber := 1\<rparr>)
             \<and> bulkApiVersionNumber (?s\<lparr>bulkApiVersionNumber := 1\<rparr>) \<noteq> 2"
    by code_simp
  have d: "201 \<le> bulkThreshold (?s\<lparr>alwaysUseRestApiToUpdateRecords := True\<rparr>)
             \<or> alwaysUseRestApiToUpdateRecords (?s\<lparr>alwaysUseRestApiToUpdateRecords := True\<rparr>)"
    by code_simp
  from a b c d
    C9_engine_selection[where n = 201 and s = ?s and C = exampleConstants
       and self = accountTask and org = "targetOrg ?s" and op = Insert and updateRecordId = True]
    C9_engine_selection[where n = 200 and s = ?s and C = exampleConstants
       and self = accountTask and org = "targetOrg ?s" and op = Insert and updateRecordId = True]
    C9_engine_selection[where n = 201 and s = "?s\<lparr>bulkApiVersionNumber := 1\<rparr>"
       and C = exampleConstants
       and self = accountTask and org = "targetOrg ?s" and op = Insert and updateRecordId = True]
    C9_engine_selection[where n = 201 and s = "?s\<lparr>alwaysUseRestApiToUpdateRecords := True\<rparr>"
       and C = exampleConstants
       and self = accountTask and org = "targetOrg ?s" and op = Insert and updateRecordId = True]
  show ?thesis by blast
qed

lemma sourceCsvFilename_fieldsToUpdate:
  "sourceCsvFilename C s (self\<lparr>scriptObject := (scriptObject self)\<lparr>fieldsToUpdateMap := fm\<rparr>\<rparr>)
     = sourceCsvFilename C s self"
  by (simp add: sourceCsvFilename_def getCSVFilename_def sObjectName_def Let_def)

text \<open>
  Claim C6: when the header read of the task's source file returns zero rows,
  \<^verbatim>\<open>validateCSV\<close> returns exactly one issue, attributed to the task's entity, with the
  empty-file error and no field, value or parent; and the result does not depend on the
  fields to update, none of which is checked.
\<close>

theorem C6_empty_file_one_issue:
  assumes "length (readCsvFileAsync env (sourceCsvFilename C (script job) self) 1) = 0"
  shows "validateCSV C env job self = [emptyFileIssue env self]
       \<and> childSObject (emptyFileIssue env self) = sObjectName self
       \<and> issueError (emptyFileIssue env self) = getResourceString env csvFileIsEmpty
       \<and> childField (emptyFileIssue env self) = Null
       \<and> validateCSV C env job
           (self\<lparr>scriptObject := (scriptObject self)\<lparr>fieldsToUpdateMap := fm\<rparr>\<rparr>)
          = validateCSV C env job self"
  using assms
  by (simp add: validateCSV_def Let_def emptyFileIssue_def sourceCsvFilename_fieldsToUpdate
      sObjectName_def)

theorem C6_empty_file_one_issue_witness:
  "length (readCsvFileAsync plainCollaborators
             (sourceCsvFilename exampleConstants (script accountJob) (hd (tasks accountJob))) 1) = 0
   \<and> length (validateCSV exampleConstants plainCollaborators accountJob (hd (tasks accountJob))) = 1
   \<and> map childSObject
       (validateCSV exampleConstants plainCollaborators accountJob (hd (tasks accountJob)))
       = [js ''Account'']"
proof -
  have e: "length (readCsvFileAsync plainCollaborators
             (sourceCsvFilename exampleConstants (script accountJob) (hd (tasks accountJob))) 1) = 0"
    by code_simp
  have n: "sObjectName (hd (tasks accountJob)) = js ''Account''" by code_simp
  from C6_empty_file_one_issue[OF e] e n show ?thesis by simp
qed

text \<open>
  Claim C7, as stated: for a missing or empty source file both the validation and the
  repair yield no issues. The validation of the missing file of \<open>accountJob\<close> yields an
  issue.
\<close>

theorem C7_validation_reports_empty_file:
  "length (readCsvFileAsync plainCollaborators
             (sourceCsvFilename exampleConstants (script accountJob) (hd (tasks accountJob))) 1) = 0
   \<and> validateCSV exampleConstants plainCollaborators accountJob (hd (tasks accountJob)) \<noteq> []"
  by code_simp

text \<open>
  Claim C7, amended: for a missing or empty source file both steps return without an
  error; the validation yields exactly one issue, the empty-file issue of that entity,
  and the repair yields no issue, marks no file as updated and issues no synthetic
  identifier.
\<close>

theorem C7_empty_file_validate_and_repair:
  assumes "length (readCsvFileAsync env (sourceCsvFilename C (script job) self) 1) = 0"
    and "length (fst (readCsvFileOnce env cachedCSVContent
                        (sourceCsvFilename C (script job) self))) = 0"
  shows "validateCSV C env job self = [emptyFileIssue env self]
       \<and> fst (repairCSV C env job self cachedCSVContent) = []
       \<and> updatedFilenames (snd (repairCSV C env job self cachedCSVContent))
           = updatedFilenames cachedCSVContent
       \<and> idCounter (snd (repairCSV C env job self cachedCSVContent))
           = idCounter cachedCSVContent"
proof -
  have v: "validateCSV C env job self = [emptyFileIssue env self]"
    using assms(1) by (simp add: validateCSV_def Let_def)
  obtain f c0 where r: "readCsvFileOnce env cachedCSVContent
                          (sourceCsvFilename C (script job) self) = (f, c0)"
    by (cases "readCsvFileOnce env cachedCSVContent (sourceCsvFilename C (script job) self)") auto
  with assms(2) have f: "length f = 0" by simp
  from r have c0: "updatedFilenames c0 = updatedFilenames cachedCSVContent"
    "idCounter c0 = idCounter cachedCSVContent"
    by (auto simp: readCsvFileOnce_def split: option.splits)
  from r f have "repairCSV C env job self cachedCSVContent = ([], c0)"
    by (simp add: repairCSV_def Let_def)
  with v c0 show ?thesis by simp
qed

theorem C7_empty_file_validate_and_repair_witness:
  "length (validateCSV exampleConstants plainCollaborators accountJob (hd (tasks accountJob))) = 1
   \<and> fst (repairCSV exampleConstants plainCollaborators accountJob (hd (tasks accountJob))
            emptyCache) = []
   \<and> updatedFilenames (snd (repairCSV exampleConstants plainCollaborators accountJob
                               (hd (tasks accountJob)) emptyCache)) = {}"
proof -
  have a: "length (readCsvFileAsync plainCollaborators
             (sourceCsvFilename exampleConstants (script accountJob) (hd (tasks accountJob))) 1) = 0"
    by code_simp
  have b: "length (fst (readCsvFileOnce plainCollaborators emptyCache
             (sourceCsvFilename exampleConstants (script accountJob) (hd (tasks accountJob))))) = 0"
    by code_simp
  have u: "updatedFilenames emptyCache = {}" by (simp add: emptyCache_def)
  from C7_empty_file_validate_and_repair[OF a b] u show ?thesis by simp
qed

section \<open>Repairing a flat file twice\<close>

subsection \<open>Objects\<close>

lemma hasOwnProperty_setProp [simp]:
  "hasOwnProperty (setProp k v r) k' \<longleftrightarrow> k' = k \<or> hasOwnProperty r k'"
  by (auto simp: hasOwnProperty_def setProp_def Map_has_def map_of_Map_set)

lemma getProp_setProp [simp]:
  "getProp (setProp k v r) k' = (if k' = k then v else getProp r k')"
  by (simp add: getProp_def setProp_def map_of_Map_set)

lemma hasOwnProperty_keys: "hasOwnProperty r k \<longleftrightarrow> k \<in> set (Object_keys r)"
  by (simp add: hasOwnProperty_def Map_has_def Object_keys_def map_of_eq_None_iff)

lemma keys_setProp: "set (Object_keys (setProp k v r)) = insert k (set (Object_keys r))"
  using hasOwnProperty_setProp[of k v r] by (auto simp: hasOwnProperty_keys)

lemma keys_deleteProp: "set (Object_keys (deleteProp k r)) = set (Object_keys r) - {k}"
  by (auto simp: Object_keys_def deleteProp_def)

lemma extendsRow_refl [simp]: "extendsRow r r"
  by (simp add: extendsRow_def)

lemma extendsRow_trans: "extendsRow a b \<Longrightarrow> extendsRow b c \<Longrightarrow> extendsRow a c"
  by (auto simp: extendsRow_def)

lemma extendsRow_setProp: "\<not> hasOwnProperty r k \<Longrightarrow> extendsRow r (setProp k v r)"
  by (auto simp: extendsRow_def)

subsection \<open>trim\<close>

lemma dropWhile_rev_prefix: "\<exists>zs. u = rev (dropWhile P (rev u)) @ zs"
  by (metis rev_append rev_rev_ident takeWhile_dropWhile_id)

lemma dropWhile_hd_id: "t = [] \<or> \<not> P (hd t) \<Longrightarrow> dropWhile P t = t"
  by (cases t) auto

lemma trim_idem: "trim (trim s) = trim s"
proof -
  define u where "u = dropWhile isWhiteSpace s"
  define t where "t = rev (dropWhile isWhiteSpace (rev u))"
  have ts: "trim s = t" by (simp add: trim_def t_def u_def)
  obtain zs where uz: "u = t @ zs" unfolding t_def using dropWhile_rev_prefix by blast
  have "t = [] \<or> \<not> isWhiteSpace (hd t)"
  proof (cases t)
    case Nil
    then show ?thesis by simp
  next
    case (Cons a as)
    with uz have "u = a # as @ zs" by simp
    then have "\<not> isWhiteSpace (hd u)" unfolding u_def by (metis hd_dropWhile list.distinct(1))
    with Cons uz show ?thesis by simp
  qed
  then have front: "dropWhile isWhiteSpace t = t" by (rule dropWhile_hd_id)
  have rear: "dropWhile isWhiteSpace (rev t) = rev t"
    unfolding t_def by (simp add: dropWhile_idem)
  have "trim t = t" by (simp add: trim_def front rear)
  with ts show ?thesis by simp
qed

lemma trimmedName_trim [simp]: "trimmedName (trim s)"
  by (simp add: trimmedName_def trim_idem)

lemma trimmedName_Id [simp]: "trimmedName (js ''Id'')"
  by code_simp

text \<open>The no-break space, the byte order mark and the line separator are trimmed like the
  blank; a name that starts with a no-break space is not trimmed.\<close>

lemma trim_unicode_white_space:
  "trim (0x00A0 # js '' AccountId'' @ [0xFEFF, 0x2028]) = js ''AccountId''
   \<and> \<not> trimmedName (0x00A0 # js ''AccountId'')"
  by code_simp

subsection \<open>The cache\<close>

lemma Map_get_Map_set: "Map_get (Map_set k v m) k' = (if k' = k then Some v else Map_get m k')"
  by (simp add: Map_get_def map_of_Map_set)

lemma Map_has_Map_set: "Map_has (Map_set k v m) k' \<longleftrightarrow> k' = k \<or> Map_has m k'"
  by (simp add: Map_has_def map_of_Map_set)

lemma fileAt_uncached: "\<not> cachedPath c p \<Longrightarrow> fileAt c p = []"
  by (simp add: cachedPath_def fileAt_def Map_has_def Map_get_def)

lemma cachedPath_updateRow [simp]: "cachedPath (updateRow p i g c) q = cachedPath c q"
  by (auto simp: updateRow_def cachedPath_def Map_has_def Map_get_def map_of_Map_set
      split: option.splits)

lemma updatedFilenames_updateRow [simp]:
  "updatedFilenames (updateRow p i g c) = updatedFilenames c"
  by (simp add: updateRow_def split: option.splits)

lemma idCounter_updateRow [simp]: "idCounter (updateRow p i g c) = idCounter c"
  by (simp add: updateRow_def split: option.splits)

lemma fileAt_updateRow:
  "fileAt (updateRow p i g c) q =
     (if q = p \<and> i < length (fileAt c p)
      then (fileAt c p)[i := (fst (fileAt c p ! i), g (snd (fileAt c p ! i)))]
      else fileAt c q)"
  by (auto simp: updateRow_def fileAt_def Map_get_Map_set split: option.splits)

lemma length_fileAt_updateRow [simp]:
  "length (fileAt (updateRow p i g c) q) = length (fileAt c q)"
  by (simp add: fileAt_updateRow)

lemma rowAt_updateRow:
  "rowAt (updateRow p i g c) q j =
     (if q = p \<and> j = i \<and> i < length (fileAt c p) then g (rowAt c p i) else rowAt c q j)"
  by (auto simp: rowAt_def fileAt_updateRow)

lemma keyAt_updateRow [simp]:
  "map fst (fileAt (updateRow p i g c) q) = map fst (fileAt c q)"
proof -
  have "(map fst f)[i := fst (f ! i)] = map fst f" if "i < length f" for f :: csvfile
    using that by (metis list_update_id nth_map)
  then show ?thesis by (simp add: fileAt_updateRow map_update)
qed

lemma markUpdated_simps [simp]:
  "fileAt (markUpdated p c) q = fileAt c q"
  "rowAt (markUpdated p c) q j = rowAt c q j"
  "cachedPath (markUpdated p c) q = cachedPath c q"
  "idCounter (markUpdated p c) = idCounter c"
  "csvDataCacheMap (markUpdated p c) = csvDataCacheMap c"
  by (simp_all add: markUpdated_def fileAt_def rowAt_def cachedPath_def)

lemma nextId_simps [simp]:
  "fileAt (snd (nextId env c)) q = fileAt c q"
  "rowAt (snd (nextId env c)) q j = rowAt c q j"
  "cachedPath (snd (nextId env c)) q = cachedPath c q"
  "updatedFilenames (snd (nextId env c)) = updatedFilenames c"
  by (simp_all add: nextId_def fileAt_def rowAt_def cachedPath_def)

lemma readCsvFileOnce_cached:
  "cachedPath c p \<Longrightarrow> readCsvFileOnce env c p = (fileAt c p, c)"
  by (auto simp: readCsvFileOnce_def cachedPath_def fileAt_def Map_has_def Map_get_def
      split: option.splits)

lemma readCsvFileOnce_fst: "fst (readCsvFileOnce env c p) = fileAt (snd (readCsvFileOnce env c p)) p"
  by (auto simp: readCsvFileOnce_def fileAt_def Map_get_Map_set split: option.splits)

lemma cachedPath_readCsvFileOnce:
  "cachedPath (snd (readCsvFileOnce env c p)) q \<longleftrightarrow> q = p \<or> cachedPath c q"
  by (auto simp: readCsvFileOnce_def cachedPath_def Map_has_def Map_get_def map_of_Map_set
      split: option.splits)

lemma fileAt_readCsvFileOnce:
  "cachedPath c q \<Longrightarrow> fileAt (snd (readCsvFileOnce env c p)) q = fileAt c q"
  by (auto simp: readCsvFileOnce_def cachedPath_def fileAt_def Map_has_def
      Map_get_def map_of_Map_set split: option.splits)

lemma rowAt_readCsvFileOnce:
  "cachedPath c q \<Longrightarrow> rowAt (snd (readCsvFileOnce env c p)) q j = rowAt c q j"
  by (simp add: rowAt_def fileAt_readCsvFileOnce)

lemma readCsvFileOnce_other [simp]:
  "updatedFilenames (snd (readCsvFileOnce env c p)) = updatedFilenames c"
  "idCounter (snd (readCsvFileOnce env c p)) = idCounter c"
  by (auto simp: readCsvFileOnce_def split: option.splits)

subsection \<open>Extending a cache\<close>

lemma extendsCache_refl [simp]: "extendsCache path c c"
  by (simp add: extendsCache_def)

lemma extendsCache_trans:
  assumes "extendsCache path a b" "extendsCache path b c"
  shows "extendsCache path a c"
proof -
  have l: "length (fileAt b path) = length (fileAt a path) \<or> \<not> cachedPath a path"
    using assms(1) by (simp add: extendsCache_def)
  have rows: "extendsRow (rowAt a path i) (rowAt c path i)" if "i < length (fileAt a path)" for i
  proof -
    have "cachedPath a path"
    proof (rule ccontr)
      assume "\<not> cachedPath a path"
      then have "fileAt a path = []" by (rule fileAt_uncached)
      with that show False by simp
    qed
    with l that have "i < length (fileAt b path)" by simp
    with assms that show ?thesis
      by (auto simp: extendsCache_def intro: extendsRow_trans)
  qed
  have len: "length (fileAt c p) = length (fileAt a p) \<or> \<not> cachedPath a p" for p
    using assms by (metis extendsCache_def)
  from assms rows len show ?thesis by (auto simp: extendsCache_def)
qed

lemma extendsCache_updateRow:
  assumes "\<And>r. q = path \<Longrightarrow> i < length (fileAt c path) \<Longrightarrow> extendsRow (rowAt c path i) (g (rowAt c path i))"
  shows "extendsCache path c (updateRow q i g c)"
  using assms by (auto simp: extendsCache_def rowAt_updateRow)

lemma extendsCache_markUpdated [simp]: "extendsCache path c (markUpdated p c)"
  by (simp add: extendsCache_def)

lemma extendsCache_nextId [simp]: "extendsCache path c (snd (nextId env c))"
  by (simp add: extendsCache_def)

lemma extendsCache_readCsvFileOnce [simp]: "extendsCache path c (snd (readCsvFileOnce env c p))"
proof -
  have "extendsRow (rowAt c path i) (rowAt (snd (readCsvFileOnce env c p)) path i)"
    if "i < length (fileAt c path)" for i
  proof -
    have "cachedPath c path"
    proof (rule ccontr)
      assume "\<not> cachedPath c path"
      then have "fileAt c path = []" by (rule fileAt_uncached)
      with that show False by simp
    qed
    then show ?thesis by (simp add: rowAt_readCsvFileOnce)
  qed
  then show ?thesis
    by (auto simp: extendsCache_def cachedPath_readCsvFileOnce fileAt_readCsvFileOnce)
qed

subsection \<open>One row of the lookup repair\<close>

lemma lookupRowStep_settled:
  assumes "settledRow env self parentTask f (rowAt (cache st) path i)"
  shows "lookupRowStep env self f parentTask path parentPath m i st = st"
  using assms by (auto simp: settledRow_def lookupRowStep_def Let_def)

lemma rowStepEffect_same:
  "settledRow env self parentTask f (rowAt c path i) \<Longrightarrow>
     rowStepEffect env self parentTask f path i c c"
  unfolding rowStepEffect_def by (intro exI[of _ "rowAt c path i"]) auto

lemma rowStepEffect_one:
  assumes i: "i < length (fileAt c path)"
    and c0: "\<forall>q j. rowAt c0 q j = rowAt c q j" "\<forall>q. length (fileAt c0 q) = length (fileAt c q)"
      "\<forall>q. cachedPath c0 q = cachedPath c q"
    and k: "\<not> hasOwnProperty (rowAt c path i) k"
    and s: "settledRow env self parentTask f (setProp k v (rowAt c path i))"
    and kk: "k = nameId f \<or> k = fullName__r f"
  shows "rowStepEffect env self parentTask f path i c (updateRow path i (setProp k v) c0)"
  unfolding rowStepEffect_def
  using assms
  by (intro exI[of _ "setProp k v (rowAt c path i)"])
     (auto simp: rowAt_updateRow extendsRow_setProp keys_setProp)

lemma rowStepEffect_two:
  assumes i: "i < length (fileAt c path)"
    and c0: "\<forall>q j. rowAt c0 q j = rowAt c q j" "\<forall>q. length (fileAt c0 q) = length (fileAt c q)"
      "\<forall>q. cachedPath c0 q = cachedPath c q"
    and c1: "\<forall>q j. rowAt c1 q j = rowAt (updateRow path i (setProp (nameId f) v1) c0) q j"
      "\<forall>q. length (fileAt c1 q) = length (fileAt c q)"
      "\<forall>q. cachedPath c1 q = cachedPath c q"
    and k: "\<not> hasOwnProperty (rowAt c path i) (nameId f)"
      "\<not> hasOwnProperty (rowAt c path i) (fullName__r f)"
  shows "rowStepEffect env self parentTask f path i c
           (updateRow path i (setProp (fullName__r f) v2) c1)"
  unfolding rowStepEffect_def
  using assms
  by (intro exI[of _ "setProp (fullName__r f) v2 (setProp (nameId f) v1 (rowAt c path i))"])
     (auto simp: rowAt_updateRow extendsRow_def keys_setProp settledRow_def)

lemma nextId_obs:
  "\<forall>q j. rowAt (snd (nextId env c)) q j = rowAt c q j"
  "\<forall>q. length (fileAt (snd (nextId env c)) q) = length (fileAt c q)"
  "\<forall>q. cachedPath (snd (nextId env c)) q = cachedPath c q"
  by simp_all

lemma lookupRowStep_effect:
  assumes i: "i < length (fileAt (cache st) path)"
  shows "rowStepEffect env self parentTask f path i (cache st)
           (cache (lookupRowStep env self f parentTask path parentPath m i st))"
proof -
  let ?row = "rowAt (cache st) path i"
  let ?c = "cache st"
  let ?desired = "getRecordValue env (sObjectName parentTask) ?row
                    (parentExternalId (parentLookupObject f))
                    (Some (sObjectName self)) (Some (fullName__r f))"
  consider (both) "hasOwnProperty ?row (nameId f)" "hasOwnProperty ?row (fullName__r f)"
    | (none) "\<not> hasOwnProperty ?row (nameId f)" "\<not> hasOwnProperty ?row (fullName__r f)"
    | (noId) "\<not> hasOwnProperty ?row (nameId f)" "hasOwnProperty ?row (fullName__r f)"
    | (noR) "hasOwnProperty ?row (nameId f)" "\<not> hasOwnProperty ?row (fullName__r f)"
    by blast
  then show ?thesis
  proof cases
    case both
    then have "settledRow env self parentTask f ?row" by (simp add: settledRow_def)
    then show ?thesis
      by (simp add: lookupRowStep_settled rowStepEffect_same)
  next
    case none
    obtain id1 c1 where n1: "nextId env ?c = (id1, c1)" by (cases "nextId env ?c") auto
    obtain id2 c2 where n2: "nextId env (updateRow path i (setProp (nameId f) id1) c1) = (id2, c2)"
      by (cases "nextId env (updateRow path i (setProp (nameId f) id1) c1)") auto
    have st': "cache (lookupRowStep env self f parentTask path parentPath m i st)
                 = updateRow path i (setProp (fullName__r f) id2) c2"
      using none n1 n2 by (simp add: lookupRowStep_def Let_def)
    have o1: "\<forall>q j. rowAt c1 q j = rowAt ?c q j" "\<forall>q. length (fileAt c1 q) = length (fileAt ?c q)"
      "\<forall>q. cachedPath c1 q = cachedPath ?c q"
      using nextId_obs[of env ?c] n1 by simp_all
    have o2: "\<forall>q j. rowAt c2 q j = rowAt (updateRow path i (setProp (nameId f) id1) c1) q j"
      "\<forall>q. length (fileAt c2 q) = length (fileAt ?c q)"
      "\<forall>q. cachedPath c2 q = cachedPath ?c q"
      using nextId_obs[of env "updateRow path i (setProp (nameId f) id1) c1"] n2 o1 by simp_all
    show ?thesis unfolding st'
      by (rule rowStepEffect_two[OF i o1 o2 none])
  next
    case noId
    show ?thesis
    proof (cases "truthy ?desired")
      case False
      with noId have "settledRow env self parentTask f ?row" by (simp add: settledRow_def)
      then show ?thesis by (simp add: lookupRowStep_settled rowStepEffect_same)
    next
      case True
      from noId have ne: "nameId f \<noteq> fullName__r f" by auto
      have settled: "settledRow env self parentTask f (setProp (nameId f) v ?row)" for v
        using noId by (simp add: settledRow_def)
      show ?thesis
      proof (cases "Map_get m ?desired")
        case None
        obtain id1 c1 where n1: "nextId env ?c = (id1, c1)" by (cases "nextId env ?c") auto
        have st': "cache (lookupRowStep env self f parentTask path parentPath m i st)
                 = updateRow path i (setProp (nameId f) id1) c1"
          using noId True None n1 by (simp add: lookupRowStep_def Let_def)
        have o1: "\<forall>q j. rowAt c1 q j = rowAt ?c q j"
          "\<forall>q. length (fileAt c1 q) = length (fileAt ?c q)"
          "\<forall>q. cachedPath c1 q = cachedPath ?c q"
          using nextId_obs[of env ?c] n1 by simp_all
        show ?thesis unfolding st'
          by (rule rowStepEffect_one[OF i o1 noId(1) settled]) simp
      next
        case (Some j)
        have st': "cache (lookupRowStep env self f parentTask path parentPath m i st)
                 = updateRow path i
                     (setProp (nameId f) (getProp (rowAt ?c parentPath j) (js ''Id''))) ?c"
          using noId True Some by (simp add: lookupRowStep_def Let_def)
        show ?thesis unfolding st'
          by (rule rowStepEffect_one[OF i _ _ _ noId(1) settled]) simp_all
      qed
    qed
  next
    case noR
    show ?thesis
    proof (cases "truthy (getProp ?row (nameId f))")
      case False
      with noR have "settledRow env self parentTask f ?row" by (simp add: settledRow_def)
      then show ?thesis by (simp add: lookupRowStep_settled rowStepEffect_same)
    next
      case True
      have settled: "settledRow env self parentTask f (setProp (fullName__r f) v ?row)" for v
        using noR by (simp add: settledRow_def)
      show ?thesis
      proof (cases "Map_index (fileAt ?c parentPath) (getProp ?row (nameId f))")
        case None
        obtain id1 c1 where n1: "nextId env ?c = (id1, c1)" by (cases "nextId env ?c") auto
        have st': "cache (lookupRowStep env self f parentTask path parentPath m i st)
                 = updateRow path i (setProp (fullName__r f) id1) c1"
          using noR True None n1 by (simp add: lookupRowStep_def Let_def)
        have o1: "\<forall>q j. rowAt c1 q j = rowAt ?c q j"
          "\<forall>q. length (fileAt c1 q) = length (fileAt ?c q)"
          "\<forall>q. cachedPath c1 q = cachedPath ?c q"
          using nextId_obs[of env ?c] n1 by simp_all
        show ?thesis unfolding st'
          by (rule rowStepEffect_one[OF i o1 noR(2) settled]) simp
      next
        case (Some j)
        have st': "cache (lookupRowStep env self f parentTask path parentPath m i st)
                 = updateRow path i
                     (setProp (fullName__r f)
                        (getProp (rowAt ?c parentPath j)
                           (parentExternalId (parentLookupObject f)))) ?c"
          using noR True Some by (simp add: lookupRowStep_def Let_def)
        show ?thesis unfolding st'
          by (rule rowStepEffect_one[OF i _ _ _ noR(2) settled]) simp_all
      qed
    qed
  qed
qed

lemma settledRow_extends:
  assumes rn: "readsNamedColumn env"
    and s: "settledRow env self parentTask f r"
    and e: "extendsRow r r'"
  shows "settledRow env self parentTask f r'"
proof -
  have keep: "hasOwnProperty r k \<Longrightarrow> hasOwnProperty r' k \<and> getProp r' k = getProp r k" for k
    using e by (simp add: extendsRow_def)
  have d: "getRecordValue env (sObjectName parentTask) r'
             (parentExternalId (parentLookupObject f)) (Some (sObjectName self))
             (Some (fullName__r f))
         = getRecordValue env (sObjectName parentTask) r
             (parentExternalId (parentLookupObject f)) (Some (sObjectName self))
             (Some (fullName__r f))"
    if "hasOwnProperty r (fullName__r f)"
    using rn keep[OF that] unfolding readsNamedColumn_def by metis
  from s consider
      (both) "hasOwnProperty r (nameId f)" "hasOwnProperty r (fullName__r f)"
    | (noId) "\<not> hasOwnProperty r (nameId f)" "hasOwnProperty r (fullName__r f)"
        "\<not> truthy (getRecordValue env (sObjectName parentTask) r
             (parentExternalId (parentLookupObject f)) (Some (sObjectName self))
             (Some (fullName__r f)))"
    | (noR) "hasOwnProperty r (nameId f)" "\<not> hasOwnProperty r (fullName__r f)"
        "\<not> truthy (getProp r (nameId f))"
    unfolding settledRow_def by blast
  then show ?thesis
  proof cases
    case both
    with keep show ?thesis by (simp add: settledRow_def)
  next
    case noId
    with keep[OF noId(2)] d[OF noId(2)] show ?thesis by (auto simp: settledRow_def)
  next
    case noR
    with keep[OF noR(1)] show ?thesis by (auto simp: settledRow_def)
  qed
qed

lemma rowStepEffect_extends:
  assumes "rowStepEffect env self parentTask f path i c c'"
  shows "extendsCache path c c'"
  using assms unfolding rowStepEffect_def extendsCache_def by auto

lemma fold_lookupRowStep_effect:
  assumes rn: "readsNamedColumn env"
  shows "\<forall>i \<in> set visited. i < length (fileAt (cache st) path) \<Longrightarrow>
     rowsEffect env self parentTask f path visited (cache st)
       (cache (fold (lookupRowStep env self f parentTask path parentPath m) visited st))"
proof (induction visited arbitrary: st)
  case Nil
  show ?case by (auto simp: rowsEffect_def)
next
  case (Cons i visited)
  let ?st1 = "lookupRowStep env self f parentTask path parentPath m i st"
  let ?st' = "fold (lookupRowStep env self f parentTask path parentPath m) visited ?st1"
  from Cons.prems have i: "i < length (fileAt (cache st) path)" by simp
  from lookupRowStep_effect[OF i]
  have e1: "rowStepEffect env self parentTask f path i (cache st) (cache ?st1)" .
  then obtain row' where r:
    "\<forall>q j. rowAt (cache ?st1) q j = (if q = path \<and> j = i then row' else rowAt (cache st) q j)"
    "extendsRow (rowAt (cache st) path i) row'"
    "settledRow env self parentTask f row'"
    "set (Object_keys row') \<subseteq> set (Object_keys (rowAt (cache st) path i)) \<union> {nameId f, fullName__r f}"
    "\<forall>q. length (fileAt (cache ?st1) q) = length (fileAt (cache st) q)"
    "\<forall>q. cachedPath (cache ?st1) q = cachedPath (cache st) q"
    unfolding rowStepEffect_def by blast
  from Cons.prems r(5) have "\<forall>j \<in> set visited. j < length (fileAt (cache ?st1) path)" by simp
  from Cons.IH[OF this]
  have ih: "rowsEffect env self parentTask f path visited (cache ?st1) (cache ?st')" .
  have x1: "extendsCache path (cache st) (cache ?st1)" using e1 by (rule rowStepEffect_extends)
  have x2: "extendsCache path (cache ?st1) (cache ?st')" using ih by (simp add: rowsEffect_def)
  have x: "extendsCache path (cache st) (cache ?st')" using x1 x2 by (rule extendsCache_trans)
  have keys1: "set (Object_keys (rowAt (cache ?st1) path j))
               \<subseteq> set (Object_keys (rowAt (cache st) path j)) \<union> {nameId f, fullName__r f}" for j
    using r(1) r(4) by auto
  have keys: "set (Object_keys (rowAt (cache ?st') path j))
               \<subseteq> set (Object_keys (rowAt (cache st) path j)) \<union> {nameId f, fullName__r f}" for j
  proof -
    have "set (Object_keys (rowAt (cache ?st') path j))
               \<subseteq> set (Object_keys (rowAt (cache ?st1) path j)) \<union> {nameId f, fullName__r f}"
      using ih by (simp add: rowsEffect_def)
    with keys1[of j] show ?thesis by blast
  qed
  have si: "settledRow env self parentTask f (rowAt (cache ?st') path i)"
  proof -
    have "rowAt (cache ?st1) path i = row'" using r(1) by simp
    moreover have "extendsRow (rowAt (cache ?st1) path i) (rowAt (cache ?st') path i)"
      using x2 i r(5) by (simp add: extendsCache_def)
    ultimately show ?thesis using settledRow_extends[OF rn r(3)] by simp
  qed
  have "fold (lookupRowStep env self f parentTask path parentPath m) (i # visited) st = ?st'"
    by simp
  moreover have "rowsEffect env self parentTask f path (i # visited) (cache st) (cache ?st')"
    using x keys si ih r(5) r(6) by (simp add: rowsEffect_def)
  ultimately show ?case by simp
qed

text \<open>The effect of \<^verbatim>\<open>___addMissingLookupColumnsAsync\<close> for a field whose parent task exists.\<close>

lemma addMissingLookupColumns_effect:
  assumes rn: "readsNamedColumn env"
    and pt: "getTaskBySObjectName job (parentName (parentLookupObject f)) = Some parentTask"
    and cp: "cachedPath (fst ci) (sourceCsvFilename C (script job) self)"
  shows "rowsEffect env self parentTask f (sourceCsvFilename C (script job) self)
           [0 ..< length (fileAt (fst ci) (sourceCsvFilename C (script job) self))]
           (snd (readCsvFileOnce env (fst ci) (sourceCsvFilename C (script job) parentTask)))
           (fst (addMissingLookupColumns C env job self f ci))
       \<and> cachedPath (fst (addMissingLookupColumns C env job self f ci))
           (sourceCsvFilename C (script job) parentTask)"
proof -
  let ?path = "sourceCsvFilename C (script job) self"
  let ?ppath = "sourceCsvFilename C (script job) parentTask"
  let ?cr = "snd (readCsvFileOnce env (fst ci) ?ppath)"
  let ?m = "rowsByValue (\<lambda>parentCsvRow.
               getRecordValue env (sObjectName parentTask) parentCsvRow
                 (parentExternalId (parentLookupObject f)) None None) ?cr ?ppath"
  let ?init = "\<lparr>cache = ?cr, csvIssues = snd ci, isFileChanged = False\<rparr>"
  let ?st = "fold (lookupRowStep env self f parentTask ?path ?ppath ?m)
               [0 ..< length (fileAt ?cr ?path)] ?init"
  have len: "length (fileAt ?cr ?path) = length (fileAt (fst ci) ?path)"
    using cp by (simp add: fileAt_readCsvFileOnce)
  have res: "fst (addMissingLookupColumns C env job self f ci)
               = (if isFileChanged ?st then markUpdated ?path (cache ?st) else cache ?st)"
    using pt by (simp add: addMissingLookupColumns_def Let_def)
  have "rowsEffect env self parentTask f ?path [0 ..< length (fileAt ?cr ?path)]
          (cache ?init) (cache ?st)"
    by (rule fold_lookupRowStep_effect[OF rn]) simp
  then have e: "rowsEffect env self parentTask f ?path [0 ..< length (fileAt (fst ci) ?path)]
          ?cr (cache ?st)"
    using len by simp
  have m: "rowsEffect env self parentTask f ?path vs ?cr (markUpdated ?path (cache ?st))"
    if "rowsEffect env self parentTask f ?path vs ?cr (cache ?st)" for vs
    using that by (simp add: rowsEffect_def extendsCache_def)
  have "cachedPath ?cr ?ppath" by (simp add: cachedPath_readCsvFileOnce)
  with e have cpp: "cachedPath (cache ?st) ?ppath" by (simp add: rowsEffect_def)
  show ?thesis
    unfolding res using e m[OF e] cpp by simp
qed

lemma lacks_before:
  "extendsRow r r' \<Longrightarrow> \<not> hasOwnProperty r' k \<Longrightarrow> \<not> hasOwnProperty r k"
  by (auto simp: extendsRow_def)

lemma list_all_trimmed_keys:
  "list_all trimmedName (Object_keys r) \<longleftrightarrow> (\<forall>k \<in> set (Object_keys r). trimmedName k)"
  by (simp add: list_all_iff)

lemma lookupFieldStep_invariant:
  assumes rn: "readsNamedColumn env"
    and hd: "repairedHeader (fst ci) (sourceCsvFilename C (script job) self)"
    and ls: "lookupsSettled C env job self seen (fst ci)"
    and wf: "\<not> isReference g \<or> (trimmedName (nameId g) \<and> trimmedName (fullName__r g))"
  shows "repairedHeader (fst (lookupFieldStep C env job self g ci))
           (sourceCsvFilename C (script job) self)
       \<and> lookupsSettled C env job self (seen @ [g]) (fst (lookupFieldStep C env job self g ci))"
proof -
  let ?path = "sourceCsvFilename C (script job) self"
  let ?c = "fst ci"
  let ?trig = "isReference g
            \<and> (\<not> hasOwnProperty (rowAt ?c ?path 0) (fullName__r g)
               \<or> \<not> hasOwnProperty (rowAt ?c ?path 0) (nameId g))"
  from hd have cp: "cachedPath ?c ?path" and n0: "0 < length (fileAt ?c ?path)"
    and hasId: "hasOwnProperty (rowAt ?c ?path 0) (js ''Id'')"
    and tk: "\<forall>k \<in> set (Object_keys (rowAt ?c ?path 0)). trimmedName k"
    by (simp_all add: repairedHeader_def list_all_trimmed_keys)
  show ?thesis
  proof (cases "?trig \<and> getTaskBySObjectName job (parentName (parentLookupObject g)) \<noteq> None")
    case False
    then have same: "lookupFieldStep C env job self g ci = ci"
      by (auto simp: lookupFieldStep_def Let_def addMissingLookupColumns_def)
    have "lookupsSettled C env job self (seen @ [g]) ?c"
      using ls False by (auto simp: lookupsSettled_def Let_def)
    with hd same show ?thesis by simp
  next
    case True
    then obtain parentTask where
      pt: "getTaskBySObjectName job (parentName (parentLookupObject g)) = Some parentTask"
      by auto
    let ?ppath = "sourceCsvFilename C (script job) parentTask"
    let ?cr = "snd (readCsvFileOnce env ?c ?ppath)"
    let ?c' = "fst (addMissingLookupColumns C env job self g ci)"
    from True have step: "lookupFieldStep C env job self g ci
                            = addMissingLookupColumns C env job self g ci"
      by (simp add: lookupFieldStep_def Let_def)
    from True wf have tg: "trimmedName (nameId g)" "trimmedName (fullName__r g)" by auto
    from addMissingLookupColumns_effect[OF rn pt cp]
    have re: "rowsEffect env self parentTask g ?path [0 ..< length (fileAt ?c ?path)] ?cr ?c'"
      and cpp: "cachedPath ?c' ?ppath" by simp_all
    have x1: "extendsCache ?path ?c ?cr" by simp
    have x2: "extendsCache ?path ?cr ?c'" using re by (simp add: rowsEffect_def)
    have x: "extendsCache ?path ?c ?c'" using x1 x2 by (rule extendsCache_trans)
    have len: "length (fileAt ?c' ?path) = length (fileAt ?c ?path)"
      using re cp by (simp add: rowsEffect_def fileAt_readCsvFileOnce)
    have cached: "cachedPath ?c' p" if "cachedPath ?c p" for p
      using x that by (simp add: extendsCache_def)
    have rows: "extendsRow (rowAt ?c ?path i) (rowAt ?c' ?path i)"
      if "i < length (fileAt ?c ?path)" for i
      using x that by (simp add: extendsCache_def)
    have keys: "set (Object_keys (rowAt ?c' ?path 0))
                  \<subseteq> set (Object_keys (rowAt ?c ?path 0)) \<union> {nameId g, fullName__r g}"
      using re cp by (simp add: rowsEffect_def rowAt_readCsvFileOnce)
    have h': "repairedHeader ?c' ?path"
    proof -
      have "hasOwnProperty (rowAt ?c' ?path 0) (js ''Id'')"
        using rows[OF n0] hasId by (simp add: extendsRow_def)
      moreover have "\<forall>k \<in> set (Object_keys (rowAt ?c' ?path 0)). trimmedName k"
        using keys tk tg by auto
      ultimately show ?thesis
        using cached[OF cp] len n0 by (simp add: repairedHeader_def list_all_trimmed_keys)
    qed
    have l': "lookupsSettled C env job self (seen @ [g]) ?c'"
      unfolding lookupsSettled_def Let_def
    proof (intro ballI allI impI)
      fix f pt'
      assume f: "f \<in> set (seen @ [g])"
      assume a: "isReference f
           \<and> (\<not> hasOwnProperty (rowAt ?c' ?path 0) (fullName__r f)
              \<or> \<not> hasOwnProperty (rowAt ?c' ?path 0) (nameId f))
           \<and> getTaskBySObjectName job (parentName (parentLookupObject f)) = Some pt'"
      show "cachedPath ?c' (sourceCsvFilename C (script job) pt')
               \<and> (\<forall>i < length (fileAt ?c' ?path). settledRow env self pt' f (rowAt ?c' ?path i))"
      proof (cases "f = g")
        case True
        with a pt have "pt' = parentTask" by simp
        with True re cpp len show ?thesis by (simp add: rowsEffect_def)
      next
        case False
        with f have fd: "f \<in> set seen" by simp
        from a lacks_before[OF rows[OF n0]]
        have "\<not> hasOwnProperty (rowAt ?c ?path 0) (fullName__r f)
              \<or> \<not> hasOwnProperty (rowAt ?c ?path 0) (nameId f)" by blast
        with ls fd a have b: "cachedPath ?c (sourceCsvFilename C (script job) pt')"
          and s: "\<forall>i < length (fileAt ?c ?path). settledRow env self pt' f (rowAt ?c ?path i)"
          unfolding lookupsSettled_def Let_def by blast+
        have "settledRow env self pt' f (rowAt ?c' ?path i)" if "i < length (fileAt ?c' ?path)" for i
          using s that len settledRow_extends[OF rn _ rows[of i]] by simp
        with cached[OF b] show ?thesis by simp
      qed
    qed
    from h' l' step show ?thesis by simp
  qed
qed

lemma fold_lookupFieldStep_invariant:
  assumes rn: "readsNamedColumn env"
  shows "repairedHeader (fst ci) (sourceCsvFilename C (script job) self) \<Longrightarrow>
     lookupsSettled C env job self seen (fst ci) \<Longrightarrow>
     \<forall>g \<in> set gs. \<not> isReference g \<or> (trimmedName (nameId g) \<and> trimmedName (fullName__r g)) \<Longrightarrow>
     repairedHeader (fst (fold (lookupFieldStep C env job self) gs ci))
           (sourceCsvFilename C (script job) self)
       \<and> lookupsSettled C env job self (seen @ gs)
           (fst (fold (lookupFieldStep C env job self) gs ci))"
proof (induction gs arbitrary: ci seen)
  case Nil
  then show ?case by simp
next
  case (Cons g gs)
  from Cons.prems(3) have wf: "\<not> isReference g \<or> (trimmedName (nameId g) \<and> trimmedName (fullName__r g))"
    and rest: "\<forall>g \<in> set gs. \<not> isReference g \<or> (trimmedName (nameId g) \<and> trimmedName (fullName__r g))"
    by simp_all
  from lookupFieldStep_invariant[OF rn Cons.prems(1) Cons.prems(2) wf]
  have h: "repairedHeader (fst (lookupFieldStep C env job self g ci))
           (sourceCsvFilename C (script job) self)"
    and l: "lookupsSettled C env job self (seen @ [g]) (fst (lookupFieldStep C env job self g ci))"
    by simp_all
  from Cons.IH[OF h l rest] show ?case by simp
qed

subsection \<open>A repaired file is left alone\<close>

lemma fold_lookupRowStep_settled:
  "\<forall>i \<in> set visited. settledRow env self parentTask f (rowAt (cache st) path i) \<Longrightarrow>
     fold (lookupRowStep env self f parentTask path parentPath m) visited st = st"
  by (induction visited) (simp_all add: lookupRowStep_settled)

lemma lookupFieldStep_settled:
  assumes ls: "lookupsSettled C env job self flds c"
    and g: "g \<in> set flds"
  shows "lookupFieldStep C env job self g (c, iss) = (c, iss)"
proof (cases "isReference g
            \<and> (\<not> hasOwnProperty (rowAt c (sourceCsvFilename C (script job) self) 0) (fullName__r g)
               \<or> \<not> hasOwnProperty (rowAt c (sourceCsvFilename C (script job) self) 0) (nameId g))")
  case False
  then show ?thesis by (auto simp: lookupFieldStep_def Let_def)
next
  case True
  let ?path = "sourceCsvFilename C (script job) self"
  from True have step: "lookupFieldStep C env job self g (c, iss)
                            = addMissingLookupColumns C env job self g (c, iss)"
    by (simp add: lookupFieldStep_def Let_def)
  show ?thesis
  proof (cases "getTaskBySObjectName job (parentName (parentLookupObject g))")
    case None
    with step show ?thesis by (simp add: addMissingLookupColumns_def)
  next
    case (Some parentTask)
    let ?ppath = "sourceCsvFilename C (script job) parentTask"
    from ls g True Some have cpp: "cachedPath c ?ppath"
      and s: "\<forall>i < length (fileAt c ?path). settledRow env self parentTask g (rowAt c ?path i)"
      unfolding lookupsSettled_def Let_def by blast+
    have rd: "snd (readCsvFileOnce env c ?ppath) = c"
      using cpp by (simp add: readCsvFileOnce_cached)
    let ?init = "\<lparr>cache = c, csvIssues = iss, isFileChanged = False\<rparr>"
    have "fold (lookupRowStep env self g parentTask ?path ?ppath m)
            [0 ..< length (fileAt c ?path)] ?init = ?init" for m
      by (rule fold_lookupRowStep_settled) (use s in simp)
    with step Some rd show ?thesis
      by (simp add: addMissingLookupColumns_def Let_def)
  qed
qed

lemma fold_lookupFieldStep_settled:
  assumes ls: "lookupsSettled C env job self flds c"
  shows "set gs \<subseteq> set flds \<Longrightarrow> fold (lookupFieldStep C env job self) gs (c, iss) = (c, iss)"
  by (induction gs) (simp_all add: lookupFieldStep_settled[OF ls])

lemma trimColumnNames_trimmed:
  assumes "list_all trimmedName (Object_keys (rowAt c path 0))"
  shows "trimColumnNames path c = c"
proof -
  have "filter (\<lambda>field. field \<noteq> trim field) (Object_keys (rowAt c path 0)) = []"
    using assms by (auto simp: filter_empty_conv list_all_iff trimmedName_def)
  then show ?thesis by (simp add: trimColumnNames_def Let_def)
qed

subsection \<open>The header of the file through the first steps\<close>

lemma headerKept_refl [simp]: "headerKept path c c"
  by (simp add: headerKept_def)

lemma headerKept_trans: "headerKept path a b \<Longrightarrow> headerKept path b c \<Longrightarrow> headerKept path a c"
  unfolding headerKept_def by (intro conjI) (metis, blast, blast)

lemma headerKept_updateRow:
  "trimmedName k \<Longrightarrow> headerKept path c (updateRow q i (setProp k v) c)"
  by (auto simp: headerKept_def rowAt_updateRow keys_setProp)

lemma headerKept_markUpdated [simp]: "headerKept path c (markUpdated p c)"
  by (simp add: headerKept_def)

lemma headerKept_readCsvFileOnce:
  "cachedPath c path \<Longrightarrow> headerKept path c (snd (readCsvFileOnce env c p))"
  by (auto simp: headerKept_def cachedPath_readCsvFileOnce fileAt_readCsvFileOnce
      rowAt_readCsvFileOnce)

lemma preHeader_kept: "preHeader c path \<Longrightarrow> headerKept path c c' \<Longrightarrow> preHeader c' path"
  unfolding preHeader_def headerKept_def list_all_iff by auto

lemma hasId_kept:
  "hasOwnProperty (rowAt c path 0) k \<Longrightarrow> headerKept path c c' \<Longrightarrow>
     hasOwnProperty (rowAt c' path 0) k"
  unfolding headerKept_def hasOwnProperty_keys by auto

lemma repairedHeader_pre:
  "repairedHeader c path \<longleftrightarrow> preHeader c path \<and> hasOwnProperty (rowAt c path 0) (js ''Id'')"
  by (auto simp: repairedHeader_def preHeader_def)

subsubsection \<open>Trimming the column names\<close>

lemma fold_updateRow_obs:
  "cachedPath (fold (\<lambda>i. updateRow path i g) visited c) q = cachedPath c q
   \<and> length (fileAt (fold (\<lambda>i. updateRow path i g) visited c) q) = length (fileAt c q)"
  by (induction visited arbitrary: c) simp_all

lemma fold_updateRow_rowAt:
  "distinct visited \<Longrightarrow>
     rowAt (fold (\<lambda>i. updateRow path i g) visited c) path j =
       (if j \<in> set visited \<and> j < length (fileAt c path) then g (rowAt c path j)
        else rowAt c path j)"
proof (induction visited arbitrary: c)
  case Nil
  then show ?case by simp
next
  case (Cons i visited)
  then show ?case by (auto simp: rowAt_updateRow)
qed

lemma fold_rename_obs:
  "cachedPath (fold (\<lambda>column c'. fold (\<lambda>i. updateRow path i (h column)) [0 ..< n] c') cols c) q
     = cachedPath c q
   \<and> length (fileAt (fold (\<lambda>column c'. fold (\<lambda>i. updateRow path i (h column)) [0 ..< n] c') cols c) q)
     = length (fileAt c q)"
  by (induction cols arbitrary: c) (simp_all add: fold_updateRow_obs)

lemma fold_rename_rowAt:
  "0 < n \<Longrightarrow> n \<le> length (fileAt c path) \<Longrightarrow>
   rowAt (fold (\<lambda>column c'. fold (\<lambda>i. updateRow path i (h column)) [0 ..< n] c') cols c) path 0
     = fold h cols (rowAt c path 0)"
proof (induction cols arbitrary: c)
  case Nil
  then show ?case by simp
next
  case (Cons col cols)
  let ?c1 = "fold (\<lambda>i. updateRow path i (h col)) [0 ..< n] c"
  have r: "rowAt ?c1 path 0 = h col (rowAt c path 0)"
    using Cons.prems by (auto simp: fold_updateRow_rowAt)
  have l: "n \<le> length (fileAt ?c1 path)" using Cons.prems by (simp add: fold_updateRow_obs)
  from Cons.IH[OF Cons.prems(1) l] r show ?case by simp
qed

lemma keys_renameColumn:
  "set (Object_keys (renameColumn column r)) = insert (trim column) (set (Object_keys r)) - {column}"
  by (simp add: renameColumn_def keys_deleteProp keys_setProp)

lemma fold_renameColumn_trimmed:
  "\<forall>k \<in> set (Object_keys r). trimmedName k \<or> k \<in> set cols \<Longrightarrow>
     \<forall>k \<in> set (Object_keys (fold renameColumn cols r)). trimmedName k"
proof (induction cols arbitrary: r)
  case Nil
  then show ?case by simp
next
  case (Cons col cols)
  have "\<forall>k \<in> set (Object_keys (renameColumn col r)). trimmedName k \<or> k \<in> set cols"
    using Cons.prems by (auto simp: keys_renameColumn)
  from Cons.IH[OF this] show ?case by simp
qed

lemma trimColumnNames_preHeader:
  assumes cp: "cachedPath c path" and n0: "0 < length (fileAt c path)"
  shows "preHeader (trimColumnNames path c) path
       \<and> (\<forall>p. cachedPath c p \<longrightarrow> cachedPath (trimColumnNames path c) p)"
proof -
  let ?cols = "filter (\<lambda>field. field \<noteq> trim field) (Object_keys (rowAt c path 0))"
  show ?thesis
  proof (cases "?cols = []")
    case True
    then have "\<forall>k \<in> set (Object_keys (rowAt c path 0)). trimmedName k"
      by (auto simp: filter_empty_conv trimmedName_def)
    with True cp n0 show ?thesis
      by (simp add: trimColumnNames_def Let_def preHeader_def list_all_iff)
  next
    case False
    let ?c' = "fold (\<lambda>column c'. fold (\<lambda>i. updateRow path i (renameColumn column))
                  [0 ..< length (fileAt c path)] c') ?cols c"
    have res: "trimColumnNames path c = markUpdated path ?c'"
      using False by (simp add: trimColumnNames_def Let_def)
    have row: "rowAt ?c' path 0 = fold renameColumn ?cols (rowAt c path 0)"
      using n0 by (simp add: fold_rename_rowAt)
    have "\<forall>k \<in> set (Object_keys (rowAt c path 0)). trimmedName k \<or> k \<in> set ?cols"
      by (auto simp: trimmedName_def)
    from fold_renameColumn_trimmed[OF this] row
    have "\<forall>k \<in> set (Object_keys (rowAt ?c' path 0)). trimmedName k" by simp
    with cp n0 show ?thesis
      unfolding res by (simp add: preHeader_def list_all_iff fold_rename_obs)
  qed
qed

subsubsection \<open>Adding the identifier column\<close>

lemma fold_addId_kept:
  "headerKept path c
     (fold (\<lambda>i c'. updateRow path i (setProp (js ''Id'') (fst (fileAt c' path ! i))) c') visited c)"
proof (induction visited arbitrary: c)
  case Nil
  then show ?case by simp
next
  case (Cons i visited)
  let ?c1 = "updateRow path i (setProp (js ''Id'') (fst (fileAt c path ! i))) c"
  have "headerKept path c ?c1" by (simp add: headerKept_updateRow)
  from headerKept_trans[OF this Cons.IH[of ?c1]] show ?case by simp
qed

lemma fold_addId_has:
  "0 \<in> set visited \<Longrightarrow> 0 < length (fileAt c path) \<Longrightarrow>
     hasOwnProperty
       (rowAt (fold (\<lambda>i c'. updateRow path i (setProp (js ''Id'') (fst (fileAt c' path ! i))) c')
                 visited c) path 0) (js ''Id'')"
proof (induction visited arbitrary: c)
  case Nil
  then show ?case by simp
next
  case (Cons i visited)
  let ?c1 = "updateRow path i (setProp (js ''Id'') (fst (fileAt c path ! i))) c"
  show ?case
  proof (cases "i = 0")
    case True
    with Cons.prems have "hasOwnProperty (rowAt ?c1 path 0) (js ''Id'')"
      by (simp add: rowAt_updateRow)
    from hasId_kept[OF this fold_addId_kept[of path ?c1 visited]] show ?thesis by simp
  next
    case False
    with Cons.prems have "0 \<in> set visited" "0 < length (fileAt ?c1 path)" by simp_all
    from Cons.IH[OF this] show ?thesis by simp
  qed
qed

lemma addMissingIdColumn_header:
  assumes "0 < length (fileAt c path)"
  shows "headerKept path c (addMissingIdColumn path c)
       \<and> hasOwnProperty (rowAt (addMissingIdColumn path c) path 0) (js ''Id'')"
proof -
  let ?c' = "fold (\<lambda>i c'. updateRow path i (setProp (js ''Id'') (fst (fileAt c' path ! i))) c')
               [0 ..< length (fileAt c path)] c"
  have k: "headerKept path c ?c'" by (rule fold_addId_kept)
  have "headerKept path ?c' (markUpdated path ?c')" by simp
  with k have k': "headerKept path c (markUpdated path ?c')" by (rule headerKept_trans)
  have "hasOwnProperty (rowAt ?c' path 0) (js ''Id'')"
    using assms by (intro fold_addId_has) simp_all
  with k' show ?thesis by (simp add: addMissingIdColumn_def)
qed

subsubsection \<open>Updating the child files\<close>

lemma childRowStep_kept:
  assumes "trimmedName (childNameId ch)" "trimmedName (childFullIdName__r ch)"
  shows "headerKept path0 (cache st)
           (cache (childRowStep env self childTask ch path childPath m j st))"
proof -
  have two: "headerKept path0 c
      (updateRow childPath j (setProp (childFullIdName__r ch) v2)
         (updateRow childPath j (setProp (childNameId ch) v1) c))" for c v1 v2
    using headerKept_trans[OF headerKept_updateRow[OF assms(1)] headerKept_updateRow[OF assms(2)]]
    by simp
  show ?thesis
    by (auto simp: childRowStep_def Let_def two split: option.splits)
qed

lemma fold_childRowStep_kept:
  assumes "trimmedName (childNameId ch)" "trimmedName (childFullIdName__r ch)"
  shows "headerKept path0 (cache st)
           (cache (fold (childRowStep env self childTask ch path childPath m) visited st))"
proof (induction visited arbitrary: st)
  case Nil
  then show ?case by simp
next
  case (Cons j visited)
  from headerKept_trans[OF childRowStep_kept[OF assms] Cons.IH] show ?case by simp
qed

lemma updateChildOriginalIdColumns_kept:
  assumes "trimmedName (childNameId ch)" "trimmedName (childFullIdName__r ch)"
    and cp: "cachedPath (fst ci) path0"
  shows "headerKept path0 (fst ci) (fst (updateChildOriginalIdColumns C env job self ch ci))"
proof (cases "originalExternalId (scriptObject self) \<noteq> js ''Id''
              \<and> getTaskBySObjectName job (childScriptObjectName ch) \<noteq> None")
  case False
  then show ?thesis by (auto simp: updateChildOriginalIdColumns_def Let_def)
next
  case True
  then obtain childTask where
    ct: "getTaskBySObjectName job (childScriptObjectName ch) = Some childTask" by auto
  let ?childPath = "sourceCsvFilename C (script job) childTask"
  let ?cr = "snd (readCsvFileOnce env (fst ci) ?childPath)"
  have r: "headerKept path0 (fst ci) ?cr" using cp by (rule headerKept_readCsvFileOnce)
  have f: "headerKept path0 ?cr
             (cache (fold (childRowStep env self childTask ch path ?childPath m) visited
                      \<lparr>cache = ?cr, csvIssues = iss, isFileChanged = False\<rparr>))"
    for path m visited iss
    using fold_childRowStep_kept[OF assms(1,2), of path0
        "\<lparr>cache = ?cr, csvIssues = iss, isFileChanged = False\<rparr>"] by simp
  have m: "headerKept path0 ?cr (markUpdated p c)" if "headerKept path0 ?cr c" for p c
    using headerKept_trans[OF that headerKept_markUpdated] .
  have "headerKept path0 ?cr (fst (updateChildOriginalIdColumns C env job self ch ci))"
    using True ct f m[OF f] by (auto simp: updateChildOriginalIdColumns_def Let_def)
  with r show ?thesis by (rule headerKept_trans)
qed

lemma fold_updateChildOriginalIdColumns_kept:
  "\<forall>ch \<in> set chs. trimmedName (childNameId ch) \<and> trimmedName (childFullIdName__r ch) \<Longrightarrow>
   cachedPath (fst ci) path0 \<Longrightarrow>
     headerKept path0 (fst ci)
       (fst (fold (updateChildOriginalIdColumns C env job self) chs ci))"
proof (induction chs arbitrary: ci)
  case Nil
  then show ?case by simp
next
  case (Cons ch chs)
  then have a: "trimmedName (childNameId ch)" "trimmedName (childFullIdName__r ch)"
    and rest: "\<forall>ch \<in> set chs. trimmedName (childNameId ch) \<and> trimmedName (childFullIdName__r ch)"
    by simp_all
  have k: "headerKept path0 (fst ci) (fst (updateChildOriginalIdColumns C env job self ch ci))"
    using a Cons.prems(2) by (rule updateChildOriginalIdColumns_kept)
  then have "cachedPath (fst (updateChildOriginalIdColumns C env job self ch ci)) path0"
    using Cons.prems(2) by (simp add: headerKept_def)
  from headerKept_trans[OF k Cons.IH[OF rest this]]
  show ?case by simp
qed

subsection \<open>The value mapping\<close>

text \<open>The mapping rewrites nothing where every cell is settled.\<close>

lemma Map_set_same: "map_of m k = Some v \<Longrightarrow> Map_set k v m = m"
  by (induction m) (auto split: if_splits)

lemma mapValue_settled: "cellSettled valuesMap field r \<Longrightarrow> mapValue valuesMap field r = r"
  by (auto simp: cellSettled_def mapValue_def Let_def setProp_def getProp_def Map_set_same
      split: option.splits)

lemma updateRow_same:
  assumes "i < length (fileAt c p) \<Longrightarrow> g (rowAt c p i) = rowAt c p i"
  shows "updateRow p i g c = c"
proof (cases "Map_get (csvDataCacheMap c) p")
  case None
  then show ?thesis by (simp add: updateRow_def)
next
  case (Some fl)
  show ?thesis
  proof (cases "i < length fl")
    case False
    with Some show ?thesis by (simp add: updateRow_def)
  next
    case True
    with Some assms have "g (snd (fl ! i)) = snd (fl ! i)"
      by (simp add: fileAt_def rowAt_def)
    then have "fl[i := (fst (fl ! i), g (snd (fl ! i)))] = fl" by simp
    moreover have "Map_set p fl (csvDataCacheMap c) = csvDataCacheMap c"
      using Some by (simp add: Map_get_def Map_set_same)
    ultimately show ?thesis using Some True by (simp add: updateRow_def)
  qed
qed

lemma fold_updateRow_same:
  assumes "\<And>i. i < length (fileAt c p) \<Longrightarrow> g (rowAt c p i) = rowAt c p i"
  shows "fold (\<lambda>i. updateRow p i g) visited c = c"
  using assms by (induction visited) (simp_all add: updateRow_same)

lemma markUpdated_same: "p \<in> updatedFilenames c \<Longrightarrow> markUpdated p c = c"
  by (simp add: markUpdated_def insert_absorb)

lemma updateWithCSVValueMapping_settled:
  assumes vs: "valueMappingSettled C job self c" and ap: "valueMappingApplies job self"
    and mk: "sourceCsvFilename C (script job) self \<in> updatedFilenames c"
  shows "updateWithCSVValueMapping job self (sourceCsvFilename C (script job) self) c = c"
proof -
  let ?path = "sourceCsvFilename C (script job) self"
  let ?step = "\<lambda>field c'.
                    case Map_get (csvValuesMapping job) (sObjectName self @ field) of
                      None \<Rightarrow> c'
                    | Some valuesMap \<Rightarrow>
                        if length valuesMap > 0
                        then fold (\<lambda>i. updateRow ?path i (mapValue valuesMap field))
                               [0 ..< length (fileAt c ?path)] c'
                        else c'"
  have one: "?step field c = c" if "field \<in> set (Object_keys (rowAt c ?path 0))" for field
  proof (cases "Map_get (csvValuesMapping job) (sObjectName self @ field)")
    case None
    then show ?thesis by simp
  next
    case (Some valuesMap)
    from vs ap that
    have "case Map_get (csvValuesMapping job) (sObjectName self @ field) of
            None \<Rightarrow> True
          | Some valuesMap \<Rightarrow>
              list_all (cellSettled valuesMap field) (map snd (fileAt c ?path))"
      by (simp add: valueMappingSettled_def Let_def list_all_iff)
    with Some have "list_all (cellSettled valuesMap field) (map snd (fileAt c ?path))"
      by simp
    then have "mapValue valuesMap field (rowAt c ?path i) = rowAt c ?path i"
      if "i < length (fileAt c ?path)" for i
      using that by (simp add: list_all_iff rowAt_def mapValue_settled)
    then have "fold (\<lambda>i. updateRow ?path i (mapValue valuesMap field))
                 [0 ..< length (fileAt c ?path)] c = c"
      by (rule fold_updateRow_same)
    with Some show ?thesis by simp
  qed
  have "fold ?step fields c = c" if "set fields \<subseteq> set (Object_keys (rowAt c ?path 0))"
    for fields
    using that by (induction fields) (simp_all add: one)
  then have "fold ?step (Object_keys (rowAt c ?path 0)) c = c" by simp
  then show ?thesis
    using mk by (simp add: updateWithCSVValueMapping_def Let_def markUpdated_same)
qed

text \<open>The mapping keeps the header of the file.\<close>

lemma keys_mapValue:
  "field \<in> set (Object_keys r) \<Longrightarrow>
     set (Object_keys (mapValue valuesMap field r)) = set (Object_keys r)"
  by (auto simp: mapValue_def Let_def keys_setProp split: option.splits)

lemma mapField_kept:
  assumes f: "field \<in> set (Object_keys (rowAt c path 0))"
  shows "headerKept path c (fold (\<lambda>i. updateRow path i (mapValue valuesMap field)) [0 ..< n] c)
       \<and> set (Object_keys (rowAt (fold (\<lambda>i. updateRow path i (mapValue valuesMap field))
                                     [0 ..< n] c) path 0))
           = set (Object_keys (rowAt c path 0))"
proof -
  let ?c' = "fold (\<lambda>i. updateRow path i (mapValue valuesMap field)) [0 ..< n] c"
  have r: "rowAt ?c' path 0 = mapValue valuesMap field (rowAt c path 0) \<or>
           rowAt ?c' path 0 = rowAt c path 0"
    by (simp add: fold_updateRow_rowAt)
  with f have k: "set (Object_keys (rowAt ?c' path 0)) = set (Object_keys (rowAt c path 0))"
    by (auto simp: keys_mapValue)
  then show ?thesis by (auto simp: headerKept_def fold_updateRow_obs)
qed

lemma updateWithCSVValueMapping_kept:
  "headerKept path c (updateWithCSVValueMapping job self path c)"
proof -
  let ?step = "\<lambda>field c'.
                    case Map_get (csvValuesMapping job) (sObjectName self @ field) of
                      None \<Rightarrow> c'
                    | Some valuesMap \<Rightarrow>
                        if length valuesMap > 0
                        then fold (\<lambda>i. updateRow path i (mapValue valuesMap field))
                               [0 ..< length (fileAt c path)] c'
                        else c'"
  have one: "headerKept path c' (?step field c')
           \<and> set (Object_keys (rowAt (?step field c') path 0)) = set (Object_keys (rowAt c' path 0))"
    if "field \<in> set (Object_keys (rowAt c' path 0))" for field c'
    using mapField_kept[OF that] by (auto split: option.splits)
  have "headerKept path c' (fold ?step fields c')"
    if "set fields \<subseteq> set (Object_keys (rowAt c' path 0))" for fields c'
    using that
  proof (induction fields arbitrary: c')
    case Nil
    then show ?case by simp
  next
    case (Cons field fields)
    then have f: "field \<in> set (Object_keys (rowAt c' path 0))" by simp
    from one[OF f] Cons.prems
    have "set fields \<subseteq> set (Object_keys (rowAt (?step field c') path 0))" by simp
    from headerKept_trans[OF conjunct1[OF one[OF f]] Cons.IH[OF this]] show ?case by simp
  qed
  then have "headerKept path c (fold ?step (Object_keys (rowAt c path 0)) c)" by simp
  from headerKept_trans[OF this headerKept_markUpdated]
  show ?thesis by (simp add: updateWithCSVValueMapping_def Let_def)
qed

lemma updatedFilenames_updateWithCSVValueMapping:
  "path \<in> updatedFilenames (updateWithCSVValueMapping job self path c)"
  by (simp add: updateWithCSVValueMapping_def Let_def markUpdated_def)


subsection \<open>No step of the repair removes a mark\<close>

lemma marks_fold_updateRow [simp]:
  "updatedFilenames (fold (\<lambda>i c'. updateRow p i (h c' i) c') visited c) = updatedFilenames c"
  by (induction visited arbitrary: c) simp_all

lemma marks_addMissingIdColumn:
  "updatedFilenames c \<subseteq> updatedFilenames (addMissingIdColumn path c)"
  by (auto simp: addMissingIdColumn_def markUpdated_def)

lemma marks_lookupRowStep:
  "updatedFilenames (cache (lookupRowStep env self sField parentTask path parentPath m i st))
     = updatedFilenames (cache st)"
  by (auto simp: lookupRowStep_def Let_def nextId_def split: option.splits)

lemma marks_fold_lookupRowStep:
  "updatedFilenames
     (cache (fold (lookupRowStep env self sField parentTask path parentPath m) visited st))
     = updatedFilenames (cache st)"
  by (induction visited arbitrary: st) (simp_all add: marks_lookupRowStep)

lemma marks_addMissingLookupColumns:
  "updatedFilenames (fst ci)
     \<subseteq> updatedFilenames (fst (addMissingLookupColumns C env job self sField ci))"
  by (auto simp: addMissingLookupColumns_def Let_def marks_fold_lookupRowStep markUpdated_def
      split: option.splits)

lemma marks_lookupFieldStep:
  "updatedFilenames (fst ci) \<subseteq> updatedFilenames (fst (lookupFieldStep C env job self sField ci))"
  using marks_addMissingLookupColumns[of ci C env job self sField]
  by (simp add: lookupFieldStep_def Let_def)

lemma marks_fold_lookupFieldStep:
  "updatedFilenames (fst ci)
     \<subseteq> updatedFilenames (fst (fold (lookupFieldStep C env job self) flds ci))"
proof (induction flds arbitrary: ci)
  case Nil
  show ?case by simp
next
  case (Cons f flds)
  from marks_lookupFieldStep[of ci C env job self f]
    Cons.IH[of "lookupFieldStep C env job self f ci"]
  show ?case by auto
qed

lemma marks_childRowStep:
  "updatedFilenames (cache (childRowStep env self childTask ch path childPath m j st))
     = updatedFilenames (cache st)"
  by (auto simp: childRowStep_def Let_def split: option.splits)

lemma marks_fold_childRowStep:
  "updatedFilenames (cache (fold (childRowStep env self childTask ch path childPath m) visited st))
     = updatedFilenames (cache st)"
  by (induction visited arbitrary: st) (simp_all add: marks_childRowStep)

lemma marks_updateChildOriginalIdColumns:
  "updatedFilenames (fst ci)
     \<subseteq> updatedFilenames (fst (updateChildOriginalIdColumns C env job self ch ci))"
  by (auto simp: updateChildOriginalIdColumns_def Let_def marks_fold_childRowStep markUpdated_def
      split: option.splits)

lemma marks_fold_updateChildOriginalIdColumns:
  "updatedFilenames (fst ci)
     \<subseteq> updatedFilenames (fst (fold (updateChildOriginalIdColumns C env job self) chs ci))"
proof (induction chs arbitrary: ci)
  case Nil
  show ?case by simp
next
  case (Cons ch chs)
  from marks_updateChildOriginalIdColumns[of ci C env job self ch]
    Cons.IH[of "updateChildOriginalIdColumns C env job self ch ci"]
  show ?case by auto
qed

section \<open>The claim about repairing twice\<close>

text \<open>A file with a repaired header, settled lookups and settled cells is left alone.\<close>

lemma repairCSV_repaired:
  assumes hd: "repairedHeader c (sourceCsvFilename C (script job) self)"
    and ls: "lookupsSettled C env job self (fieldsInQuerySFields self) c"
    and vs: "valueMappingSettled C job self c"
    and mk: "valueMappingApplies job self
               \<longrightarrow> sourceCsvFilename C (script job) self \<in> updatedFilenames c"
  shows "repairCSV C env job self c = ([], c)"
proof -
  let ?path = "sourceCsvFilename C (script job) self"
  from hd have cp: "cachedPath c ?path" and n0: "0 < length (fileAt c ?path)"
    and hasId: "hasOwnProperty (rowAt c ?path 0) (js ''Id'')"
    and tk: "list_all trimmedName (Object_keys (rowAt c ?path 0))"
    by (simp_all add: repairedHeader_def)
  have rd: "readCsvFileOnce env c ?path = (fileAt c ?path, c)"
    using cp by (rule readCsvFileOnce_cached)
  have tr: "trimColumnNames ?path c = c" using tk by (rule trimColumnNames_trimmed)
  have fl: "fold (lookupFieldStep C env job self) (fieldsInQuerySFields self) (c, []) = (c, [])"
    by (rule fold_lookupFieldStep_settled[OF ls]) simp
  have mp: "updateWithCSVValueMapping job self ?path c = c"
    if "useCSVValuesMapping (scriptObject self)" "csvValuesMapping job \<noteq> []"
  proof -
    from that have ap: "valueMappingApplies job self" by (simp add: valueMappingApplies_def)
    with mk have "?path \<in> updatedFilenames c" by simp
    from updateWithCSVValueMapping_settled[OF vs ap this] show ?thesis .
  qed
  show ?thesis
    using rd n0 tr hasId fl mp by (auto simp: repairCSV_def Let_def)
qed

text \<open>What the first run leaves behind when the file is not empty.\<close>

lemma repairCSV_first_run:
  assumes wf: "columnNamesTrimmed self"
    and rn: "readsNamedColumn env"
    and ne: "0 < length (fst (readCsvFileOnce env cachedCSVContent
                                (sourceCsvFilename C (script job) self)))"
  shows "repairedHeader (snd (repairCSV C env job self cachedCSVContent))
           (sourceCsvFilename C (script job) self)
       \<and> lookupsSettled C env job self (fieldsInQuerySFields self)
           (snd (repairCSV C env job self cachedCSVContent))
       \<and> (valueMappingApplies job self
            \<longrightarrow> sourceCsvFilename C (script job) self
                  \<in> updatedFilenames (snd (repairCSV C env job self cachedCSVContent)))"
proof -
  let ?path = "sourceCsvFilename C (script job) self"
  obtain f0 c0 where rd0: "readCsvFileOnce env cachedCSVContent ?path = (f0, c0)"
    by (cases "readCsvFileOnce env cachedCSVContent ?path") auto
  have f0: "f0 = fileAt c0 ?path"
    using readCsvFileOnce_fst[of env cachedCSVContent ?path] rd0 by simp
  have rd: "readCsvFileOnce env cachedCSVContent ?path = (fileAt c0 ?path, c0)"
    using rd0 f0 by simp
  have cp0: "cachedPath c0 ?path"
    using cachedPath_readCsvFileOnce[of env cachedCSVContent ?path ?path] rd0 by simp
  from ne rd have n0: "0 < length (fileAt c0 ?path)" by simp
  from wf have wff: "\<forall>g \<in> set (fieldsInQuerySFields self).
        \<not> isReference g \<or> (trimmedName (nameId g) \<and> trimmedName (fullName__r g))"
    and wfc: "\<forall>ch \<in> set (child__rSFields (externalIdSFieldDescribe (scriptObject self))).
        trimmedName (childNameId ch) \<and> trimmedName (childFullIdName__r ch)"
    by (simp_all add: columnNamesTrimmed_def list_all_iff)
  let ?c1 = "trimColumnNames ?path c0"
  let ?c2 = "if useCSVValuesMapping (scriptObject self) \<and> length (csvValuesMapping job) > 0
             then updateWithCSVValueMapping job self ?path ?c1 else ?c1"
  let ?ci3 = "if \<not> hasOwnProperty (rowAt ?c2 ?path 0) (js ''Id'')
              then fold (updateChildOriginalIdColumns C env job self)
                     (child__rSFields (externalIdSFieldDescribe (scriptObject self)))
                     (addMissingIdColumn ?path ?c2, [])
              else (?c2, [])"
  let ?ci4 = "fold (lookupFieldStep C env job self) (fieldsInQuerySFields self) ?ci3"
  have first: "repairCSV C env job self cachedCSVContent = (snd ?ci4, fst ?ci4)"
    using rd n0 by (simp add: repairCSV_def Let_def)
  from trimColumnNames_preHeader[OF cp0 n0] have p1: "preHeader ?c1 ?path" by simp
  have k12: "headerKept ?path ?c1 ?c2"
    by (simp add: updateWithCSVValueMapping_kept)
  from preHeader_kept[OF p1 k12] have p2: "preHeader ?c2 ?path" .
  have m2: "valueMappingApplies job self \<longrightarrow> ?path \<in> updatedFilenames ?c2"
    by (simp add: valueMappingApplies_def updatedFilenames_updateWithCSVValueMapping)
  have m23: "updatedFilenames ?c2 \<subseteq> updatedFilenames (fst ?ci3)"
    using marks_addMissingIdColumn[of ?c2 ?path]
      marks_fold_updateChildOriginalIdColumns[of "(addMissingIdColumn ?path ?c2, [])" C env job self
        "child__rSFields (externalIdSFieldDescribe (scriptObject self))"]
    by (cases "hasOwnProperty (rowAt ?c2 ?path 0) (js ''Id'')") auto
  have m34: "updatedFilenames (fst ?ci3) \<subseteq> updatedFilenames (fst ?ci4)"
    by (rule marks_fold_lookupFieldStep)
  have h3: "repairedHeader (fst ?ci3) ?path"
  proof (cases "hasOwnProperty (rowAt ?c2 ?path 0) (js ''Id'')")
    case True
    with p2 show ?thesis by (simp add: repairedHeader_pre)
  next
    case False
    let ?cid = "addMissingIdColumn ?path ?c2"
    from p2 have "0 < length (fileAt ?c2 ?path)" by (simp add: preHeader_def)
    from addMissingIdColumn_header[OF this]
    have k: "headerKept ?path ?c2 ?cid" and hid: "hasOwnProperty (rowAt ?cid ?path 0) (js ''Id'')"
      by simp_all
    from preHeader_kept[OF p2 k] have pid: "preHeader ?cid ?path" .
    then have "cachedPath (fst (?cid, []::ICSVIssues list)) ?path" by (simp add: preHeader_def)
    from fold_updateChildOriginalIdColumns_kept[OF wfc this]
    have kc: "headerKept ?path ?cid
                (fst (fold (updateChildOriginalIdColumns C env job self)
                     (child__rSFields (externalIdSFieldDescribe (scriptObject self)))
                     (?cid, [])))" by simp
    from preHeader_kept[OF pid kc] hasId_kept[OF hid kc] False
    show ?thesis by (simp add: repairedHeader_pre)
  qed
  have l3: "lookupsSettled C env job self [] (fst ?ci3)"
    by (simp add: lookupsSettled_def)
  from fold_lookupFieldStep_invariant[OF rn h3 l3 wff]
  have h4: "repairedHeader (fst ?ci4) ?path"
    and l4: "lookupsSettled C env job self (fieldsInQuerySFields self) (fst ?ci4)"
    by simp_all
  from m2 m23 m34 have m4: "valueMappingApplies job self \<longrightarrow> ?path \<in> updatedFilenames (fst ?ci4)"
    by blast
  from h4 l4 m4 first show ?thesis by simp
qed

text \<open>A second run on the cache the first run left finds the header repaired, every
  lookup settled and, by assumption, every cell settled, and so returns that cache and no
  issue.\<close>

lemma repairCSV_twice:
  assumes vs: "valueMappingSettled C job self (snd (repairCSV C env job self cachedCSVContent))"
    and wf: "columnNamesTrimmed self"
    and rn: "readsNamedColumn env"
  shows "repairCSV C env job self (snd (repairCSV C env job self cachedCSVContent))
           = ([], snd (repairCSV C env job self cachedCSVContent))"
proof -
  let ?path = "sourceCsvFilename C (script job) self"
  obtain f0 c0 where rd0: "readCsvFileOnce env cachedCSVContent ?path = (f0, c0)"
    by (cases "readCsvFileOnce env cachedCSVContent ?path") auto
  have f0: "f0 = fileAt c0 ?path"
    using readCsvFileOnce_fst[of env cachedCSVContent ?path] rd0 by simp
  have rd: "readCsvFileOnce env cachedCSVContent ?path = (fileAt c0 ?path, c0)"
    using rd0 f0 by simp
  have cp0: "cachedPath c0 ?path"
    using cachedPath_readCsvFileOnce[of env cachedCSVContent ?path ?path] rd0 by simp
  show ?thesis
  proof (cases "length (fileAt c0 ?path) = 0")
    case True
    with rd have first: "repairCSV C env job self cachedCSVContent = ([], c0)"
      by (simp add: repairCSV_def Let_def)
    have "readCsvFileOnce env c0 ?path = (fileAt c0 ?path, c0)"
      using cp0 by (rule readCsvFileOnce_cached)
    with True have "repairCSV C env job self c0 = ([], c0)"
      by (simp add: repairCSV_def Let_def)
    with first show ?thesis by simp
  next
    case False
    with rd have "0 < length (fst (readCsvFileOnce env cachedCSVContent ?path))" by simp
    from repairCSV_first_run[OF wf rn this]
    have h: "repairedHeader (snd (repairCSV C env job self cachedCSVContent)) ?path"
      and l: "lookupsSettled C env job self (fieldsInQuerySFields self)
                (snd (repairCSV C env job self cachedCSVContent))"
      and m: "valueMappingApplies job self
                \<longrightarrow> ?path \<in> updatedFilenames (snd (repairCSV C env job self cachedCSVContent))"
      by simp_all
    from repairCSV_repaired[OF h l vs m] show ?thesis .
  qed
qed

text \<open>
  Claim C5, as stated: running \<^verbatim>\<open>repairCSV\<close> a second time on the file cache the first
  run left produces no new issue. It is false for a task with a value mapping, which every
  run applies again (lines 179--182): in the case file of \<open>mappedFiles\<close> the first run maps
  the account name \<open>X\<close> to the empty text, so the lookup has nothing to resolve and no
  issue arises; the second run maps the empty text to \<open>Unknown\<close>, finds no such account
  and reports a missing parent record.
\<close>

theorem C5_remapped_value_counterexample:
  "fst (repairCSV exampleConstants (csvCollaborators mappedFiles) (caseJob True blankMapping)
          (caseTask True) emptyCache) = []
   \<and> length (fst (repairCSV exampleConstants (csvCollaborators mappedFiles)
                     (caseJob True blankMapping) (caseTask True)
                     (snd (repairCSV exampleConstants (csvCollaborators mappedFiles)
                             (caseJob True blankMapping) (caseTask True) emptyCache)))) = 1"
  by code_simp

text \<open>In that example the first run leaves a cell that the mapping rewrites: the empty
  account name, which the table maps to \<open>Unknown\<close>.\<close>

lemma remapped_value_is_unsettled:
  "\<not> valueMappingSettled exampleConstants (caseJob True blankMapping) (caseTask True)
       (snd (repairCSV exampleConstants (csvCollaborators mappedFiles)
               (caseJob True blankMapping) (caseTask True) emptyCache))"
  by code_simp

text \<open>
  A descriptor that names a column with white space around it has the same effect without
  any value mapping: the first run adds the lookup-id column under its name with the leading blank, the
  second run trims it to \<open>AccountId\<close>, misses the untrimmed column again and reports the
  unknown account a second time.
\<close>

lemma untrimmed_descriptor_repeats_issue:
  "length (fst (repairCSV exampleConstants (csvCollaborators unmappedFiles) untrimmedCaseJob
                  untrimmedCaseTask emptyCache)) = 1
   \<and> length (fst (repairCSV exampleConstants (csvCollaborators unmappedFiles) untrimmedCaseJob
                     untrimmedCaseTask
                     (snd (repairCSV exampleConstants (csvCollaborators unmappedFiles)
                             untrimmedCaseJob untrimmedCaseTask emptyCache)))) = 1"
  by code_simp

text \<open>
  Claim C5, amended. Let the descriptors of the task name their columns without white
  space around them, let the first run of \<^verbatim>\<open>repairCSV\<close> leave no cell in the file of
  the task that the value mapping rewrites (no value mapping applies to the task, or in
  every column with a table the trimmed text of every cell is no raw value of the table
  or is mapped to the value the cell holds), and let \<^verbatim>\<open>Common.getRecordValue\<close>, told
  the entity and the column to read, depend on no other property of the row. Then running
  \<^verbatim>\<open>repairCSV\<close> a second time on the file cache the first run left produces no issue,
  adds no path to \<^verbatim>\<open>updatedFilenames\<close> and leaves the whole cache as it was.
\<close>

theorem C5_second_repair_adds_nothing:
  assumes "valueMappingSettled C job self (snd (repairCSV C env job self cachedCSVContent))"
    and "columnNamesTrimmed self"
    and "readsNamedColumn env"
  shows "fst (repairCSV C env job self (snd (repairCSV C env job self cachedCSVContent))) = []
       \<and> updatedFilenames (snd (repairCSV C env job self
                                   (snd (repairCSV C env job self cachedCSVContent))))
           = updatedFilenames (snd (repairCSV C env job self cachedCSVContent))
       \<and> snd (repairCSV C env job self (snd (repairCSV C env job self cachedCSVContent)))
           = snd (repairCSV C env job self cachedCSVContent)"
  using repairCSV_twice[OF assms] by simp

text \<open>Claim C5, amended, at \<open>mappedFiles\<close> with \<open>acmeMapping\<close>: the first run maps the
  account name \<open>X\<close> to \<open>Acme\<close>, resolves the account, reports nothing and marks the
  case file as updated; \<open>Acme\<close> is no raw value of the table, so every cell is settled,
  and the second run reports nothing, marks nothing and leaves the cache as it was.\<close>

theorem C5_second_repair_witness:
  "valueMappingApplies (caseJob True acmeMapping) (caseTask True)
   \<and> map snd (fileAt (snd (repairCSV exampleConstants (csvCollaborators mappedFiles)
                            (caseJob True acmeMapping) (caseTask True) emptyCache))
                (js ''data/source/Case_source.csv''))
       = [ [(js ''Id'', Str (js ''500'')), (js ''Account.Name'', Str (js ''Acme'')),
            (js ''AccountId'', Str (js ''001''))]]
   \<and> updatedFilenames (snd (repairCSV exampleConstants (csvCollaborators mappedFiles)
                               (caseJob True acmeMapping) (caseTask True) emptyCache))
       = {js ''data/source/Case_source.csv''}
   \<and> fst (repairCSV exampleConstants (csvCollaborators mappedFiles) (caseJob True acmeMapping)
             (caseTask True)
             (snd (repairCSV exampleConstants (csvCollaborators mappedFiles)
                     (caseJob True acmeMapping) (caseTask True) emptyCache))) = []
   \<and> updatedFilenames
         (snd (repairCSV exampleConstants (csvCollaborators mappedFiles)
                 (caseJob True acmeMapping) (caseTask True)
                 (snd (repairCSV exampleConstants (csvCollaborators mappedFiles)
                         (caseJob True acmeMapping) (caseTask True) emptyCache))))
       = {js ''data/source/Case_source.csv''}
   \<and> snd (repairCSV exampleConstants (csvCollaborators mappedFiles) (caseJob True acmeMapping)
             (caseTask True)
             (snd (repairCSV exampleConstants (csvCollaborators mappedFiles)
                     (caseJob True acmeMapping) (caseTask True) emptyCache)))
       = snd (repairCSV exampleConstants (csvCollaborators mappedFiles)
                (caseJob True acmeMapping) (caseTask True) emptyCache)"
proof -
  have ap: "valueMappingApplies (caseJob True acmeMapping) (caseTask True)" by code_simp
  have vs: "valueMappingSettled exampleConstants (caseJob True acmeMapping) (caseTask True)
              (snd (repairCSV exampleConstants (csvCollaborators mappedFiles)
                      (caseJob True acmeMapping) (caseTask True) emptyCache))"
    by code_simp
  have wf: "columnNamesTrimmed (caseTask True)" by code_simp
  have rn: "readsNamedColumn (csvCollaborators mappedFiles)"
    by (simp add: readsNamedColumn_def csvCollaborators_def plainCollaborators_def)
  have rows: "map snd (fileAt (snd (repairCSV exampleConstants (csvCollaborators mappedFiles)
                            (caseJob True acmeMapping) (caseTask True) emptyCache))
                (js ''data/source/Case_source.csv''))
       = [ [(js ''Id'', Str (js ''500'')), (js ''Account.Name'', Str (js ''Acme'')),
            (js ''AccountId'', Str (js ''001''))]]"
    by code_simp
  have upd: "updatedFilenames (snd (repairCSV exampleConstants (csvCollaborators mappedFiles)
                               (caseJob True acmeMapping) (caseTask True) emptyCache))
       = {js ''data/source/Case_source.csv''}"
    by code_simp
  from C5_second_repair_adds_nothing[OF vs wf rn] ap rows upd
  show ?thesis by simp
qed


end
